theory Spec2Isabelle
  imports Complex_Main
begin

section \<open>Python values shared by the modules\<close>

text \<open>
  The repository is Python. Its numbers are \<open>float\<close>s; an input float and every float
  computed from inputs by guarded Python arithmetic is modelled as a \<^typ>\<open>real\<close>, so
  arithmetic on finite values is exact (binary rounding and overflow are not modelled).
  The exceptions that the modelled functions can raise are values of \<open>py_error\<close>.
\<close>

datatype py_error = ValueError | ZeroDivisionError

text \<open>
  An f-string is kept as the list of its pieces, a formatted number as the number with
  its format: \<open>Repr x\<close> is \<open>{x}\<close>, \<open>Fixed d x\<close> is \<open>{x:.df}\<close> and
  \<open>Grouped d x\<close> is \<open>{x:,.df}\<close>.
\<close>

datatype piece = Lit string | Str string | Repr real | Fixed nat real | Grouped nat real

type_synonym fstring = "piece list"

text \<open>\<open>str.upper()\<close> on ASCII text: the letters a to z are moved to A to Z.\<close>

definition upper_char :: "char \<Rightarrow> char" where
  "upper_char c =
     (let n = (of_char c :: nat) in if 97 \<le> n \<and> n \<le> 122 then char_of (n - 32) else c)"

definition upper :: "string \<Rightarrow> string" where
  "upper s = map upper_char s"

text \<open>
  \<open>round(x, 2)\<close> and \<open>round(x, 4)\<close> on a float: the nearest multiple of
  \<open>10 ^ -ndigits\<close>, a tie going to the even multiple. The value rounded is the
  exact real; Python rounds the binary float, which can lie just beside a decimal tie.
\<close>

definition round_half_even :: "real \<Rightarrow> int" where
  "round_half_even x =
     (let f = \<lfloor>x\<rfloor>; d = x - of_int f
      in if d < 1 / 2 then f else if 1 / 2 < d then f + 1 else if even f then f else f + 1)"

definition py_round :: "real \<Rightarrow> nat \<Rightarrow> real" where
  "py_round x ndigits = of_int (round_half_even (x * 10 ^ ndigits)) / 10 ^ ndigits"

text \<open>
  The builtins \<open>min(a, b)\<close> and \<open>max(a, b)\<close> keep the first argument unless the
  second is strictly smaller (larger).
\<close>

definition py_min :: "real \<Rightarrow> real \<Rightarrow> real" where
  "py_min a b = (if b < a then b else a)"

definition py_max :: "real \<Rightarrow> real \<Rightarrow> real" where
  "py_max a b = (if b > a then b else a)"

section \<open>Floats that may be infinite or NaN\<close>

text \<open>
  numpy divides by zero without raising: the quotient is an infinity or NaN, and these
  values then flow through the rest of \<open>utils/calculations.py\<close>. A float of that
  module is therefore a finite real, one of the two infinities, or NaN. The operations
  below follow IEEE 754 on these four kinds of value, exact on the finite ones. Two
  things are left out: a zero has no sign (a zero divisor stands for \<open>+0.0\<close>; for
  \<open>-0.0\<close> the infinity of a quotient has the opposite sign), and a finite result
  never overflows. The property stated below for a zero price in
  \<open>calculate_returns\<close> is only that the return is not finite, which holds for
  either zero and whether or not a result overflows.
\<close>

datatype npfloat = Fin real | PInf | NInf | NaN

text \<open>The largest finite float64.\<close>

definition float64_max :: real where
  "float64_max = (2 - 1 / 2 ^ 52) * 2 ^ 1023"

definition inf_signed :: "real \<Rightarrow> npfloat" where
  "inf_signed x = (if 0 < x then PInf else if x < 0 then NInf else NaN)"

fun fneg :: "npfloat \<Rightarrow> npfloat" where
  "fneg (Fin x) = Fin (- x)"
| "fneg PInf = NInf"
| "fneg NInf = PInf"
| "fneg NaN = NaN"

fun fadd :: "npfloat \<Rightarrow> npfloat \<Rightarrow> npfloat" where
  "fadd (Fin x) (Fin y) = Fin (x + y)"
| "fadd (Fin x) PInf = PInf"
| "fadd (Fin x) NInf = NInf"
| "fadd PInf (Fin y) = PInf"
| "fadd PInf PInf = PInf"
| "fadd PInf NInf = NaN"
| "fadd NInf (Fin y) = NInf"
| "fadd NInf NInf = NInf"
| "fadd NInf PInf = NaN"
| "fadd NaN b = NaN"
| "fadd a NaN = NaN"

definition fsub :: "npfloat \<Rightarrow> npfloat \<Rightarrow> npfloat" where
  "fsub a b = fadd a (fneg b)"

fun fmul :: "npfloat \<Rightarrow> npfloat \<Rightarrow> npfloat" where
  "fmul (Fin x) (Fin y) = Fin (x * y)"
| "fmul (Fin x) PInf = inf_signed x"
| "fmul (Fin x) NInf = inf_signed (- x)"
| "fmul PInf (Fin y) = inf_signed y"
| "fmul NInf (Fin y) = inf_signed (- y)"
| "fmul PInf PInf = PInf"
| "fmul PInf NInf = NInf"
| "fmul NInf PInf = NInf"
| "fmul NInf NInf = PInf"
| "fmul NaN b = NaN"
| "fmul a NaN = NaN"

text \<open>numpy's \<open>true_divide\<close>: a zero divisor gives an infinity or NaN, never an exception.\<close>

fun fdiv :: "npfloat \<Rightarrow> npfloat \<Rightarrow> npfloat" where
  "fdiv (Fin x) (Fin y) = (if y \<noteq> 0 then Fin (x / y) else inf_signed x)"
| "fdiv (Fin x) PInf = Fin 0"
| "fdiv (Fin x) NInf = Fin 0"
| "fdiv PInf (Fin y) = (if 0 \<le> y then PInf else NInf)"
| "fdiv NInf (Fin y) = (if 0 \<le> y then NInf else PInf)"
| "fdiv PInf PInf = NaN"
| "fdiv PInf NInf = NaN"
| "fdiv NInf PInf = NaN"
| "fdiv NInf NInf = NaN"
| "fdiv NaN b = NaN"
| "fdiv a NaN = NaN"

fun fsqrt :: "npfloat \<Rightarrow> npfloat" where
  "fsqrt (Fin x) = (if 0 \<le> x then Fin (sqrt x) else NaN)"
| "fsqrt PInf = PInf"
| "fsqrt NInf = NaN"
| "fsqrt NaN = NaN"

fun fabs :: "npfloat \<Rightarrow> npfloat" where
  "fabs (Fin x) = Fin \<bar>x\<bar>"
| "fabs PInf = PInf"
| "fabs NInf = PInf"
| "fabs NaN = NaN"

text \<open>The comparisons \<open>a < b\<close> and \<open>a \<le> b\<close>; both are false when an operand is NaN.\<close>

fun flt :: "npfloat \<Rightarrow> npfloat \<Rightarrow> bool" where
  "flt (Fin x) (Fin y) = (x < y)"
| "flt (Fin x) PInf = True"
| "flt NInf (Fin y) = True"
| "flt NInf PInf = True"
| "flt a b = False"

fun fle :: "npfloat \<Rightarrow> npfloat \<Rightarrow> bool" where
  "fle (Fin x) (Fin y) = (x \<le> y)"
| "fle (Fin x) PInf = True"
| "fle NInf (Fin y) = True"
| "fle NInf PInf = True"
| "fle NInf NInf = True"
| "fle PInf PInf = True"
| "fle a b = False"

fun is_finite :: "npfloat \<Rightarrow> bool" where
  "is_finite (Fin x) = True"
| "is_finite a = False"


text \<open>The builtins \<open>min(a, b)\<close>, \<open>max(a, b)\<close> and \<open>round(x, n)\<close> on such floats.\<close>

definition py_fmin :: "npfloat \<Rightarrow> npfloat \<Rightarrow> npfloat" where
  "py_fmin a b = (if flt b a then b else a)"

definition py_fmax :: "npfloat \<Rightarrow> npfloat \<Rightarrow> npfloat" where
  "py_fmax a b = (if flt a b then b else a)"

fun py_fround :: "npfloat \<Rightarrow> nat \<Rightarrow> npfloat" where
  "py_fround (Fin x) n = Fin (py_round x n)"
| "py_fround a n = a"

text \<open>
  \<open>sum\<close> and \<open>np.sum\<close> start from zero and add the elements; in exact arithmetic
  the order of the additions does not matter.
\<close>

definition fsum :: "npfloat list \<Rightarrow> npfloat" where
  "fsum xs = foldl fadd (Fin 0) xs"

definition np_mean :: "npfloat list \<Rightarrow> npfloat" where
  "np_mean xs = fdiv (fsum xs) (Fin (real (length xs)))"


section \<open>utils/calculations.py\<close>

text \<open>\<open>np.diff(a)\<close> is \<open>a[1:] - a[:-1]\<close>.\<close>

definition np_diff :: "real list \<Rightarrow> real list" where
  "np_diff a = map2 (\<lambda>x y. y - x) (butlast a) (tl a)"

definition calculate_returns :: "real list \<Rightarrow> npfloat list" where
  "calculate_returns prices =
     (if length prices < 2 then []
      else map2 (\<lambda>d p. fdiv (Fin d) (Fin p)) (np_diff prices) (butlast prices))"


definition calculate_hhi :: "real list \<Rightarrow> real" where
  "calculate_hhi weights =
     (if weights = [] then 0
      else (let total = sum_list weights
            in if total > 0
               then (let weights_arr = map (\<lambda>w. w / total) weights
                     in sum_list (map (\<lambda>w. w ^ 2) weights_arr))
               else 0))"

text \<open>
  The definition above computes the index in exact arithmetic. Whether two results of
  \<open>calculate_hhi\<close> are equal depends on the rounding and on the range of float64,
  so the same function is also given with both made explicit. Every float64 operation
  rounds its exact result; the rounding is the parameter \<open>rnd\<close>. A rounded value
  beyond \<open>float64_max\<close> overflows to an infinity. \<open>np.sum\<close> adds the elements
  one after the other, starting from zero.
\<close>

definition fl :: "(real \<Rightarrow> real) \<Rightarrow> real \<Rightarrow> npfloat" where
  "fl rnd x =
     (let r = rnd x
      in if float64_max < r then PInf else if r < - float64_max then NInf else Fin r)"

fun round_result :: "(real \<Rightarrow> real) \<Rightarrow> npfloat \<Rightarrow> npfloat" where
  "round_result rnd (Fin x) = fl rnd x"
| "round_result rnd a = a"

definition fadd64 :: "(real \<Rightarrow> real) \<Rightarrow> npfloat \<Rightarrow> npfloat \<Rightarrow> npfloat" where
  "fadd64 rnd a b = round_result rnd (fadd a b)"

definition fmul64 :: "(real \<Rightarrow> real) \<Rightarrow> npfloat \<Rightarrow> npfloat \<Rightarrow> npfloat" where
  "fmul64 rnd a b = round_result rnd (fmul a b)"

definition fdiv64 :: "(real \<Rightarrow> real) \<Rightarrow> npfloat \<Rightarrow> npfloat \<Rightarrow> npfloat" where
  "fdiv64 rnd a b = round_result rnd (fdiv a b)"

definition np_sum64 :: "(real \<Rightarrow> real) \<Rightarrow> npfloat list \<Rightarrow> npfloat" where
  "np_sum64 rnd xs = foldl (fadd64 rnd) (Fin 0) xs"

definition calculate_hhi_float64 :: "(real \<Rightarrow> real) \<Rightarrow> real list \<Rightarrow> npfloat" where
  "calculate_hhi_float64 rnd weights =
     (if weights = [] then Fin 0
      else (let total = np_sum64 rnd (map Fin weights)
            in if flt (Fin 0) total
               then (let weights_arr = map (\<lambda>w. fdiv64 rnd (Fin w) total) weights
                     in np_sum64 rnd (map (\<lambda>w. fmul64 rnd w w) weights_arr))
               else Fin 0))"

text \<open>
  What is used of round-to-nearest in float64: it is monotone, it leaves the smallest
  normal number \<open>2 ^ -1022\<close> unchanged, and it changes an exact result that is zero
  or at least \<open>2 ^ -1022\<close> in magnitude by at most the relative error
  \<open>2 ^ -53\<close>. A smaller non-zero result underflows, and nothing is assumed of its
  rounding. Two non-negative values agree within \<open>m\<close> roundings when each is at
  most the other times \<open>((1 + u) / (1 - u)) ^ m\<close>, with \<open>u\<close> the unit roundoff.
\<close>

definition unit_roundoff :: real where
  "unit_roundoff = 1 / 2 ^ 53"

definition float64_min_normal :: real where
  "float64_min_normal = 1 / 2 ^ 1022"

definition normal_or_zero :: "real \<Rightarrow> bool" where
  "normal_or_zero x = (x = 0 \<or> float64_min_normal \<le> x)"

definition accurate_rounding :: "(real \<Rightarrow> real) \<Rightarrow> bool" where
  "accurate_rounding rnd =
     ((\<forall>x. x = 0 \<or> float64_min_normal \<le> \<bar>x\<bar> \<longrightarrow> \<bar>rnd x - x\<bar> \<le> unit_roundoff * \<bar>x\<bar>) \<and>
      (\<forall>x y. x \<le> y \<longrightarrow> rnd x \<le> rnd y) \<and>
      rnd float64_min_normal = float64_min_normal)"

definition rounding_factor :: "nat \<Rightarrow> real" where
  "rounding_factor m = ((1 + unit_roundoff) / (1 - unit_roundoff)) ^ m"

definition agree_within :: "nat \<Rightarrow> real \<Rightarrow> real \<Rightarrow> bool" where
  "agree_within m x y = (x \<le> y * rounding_factor m \<and> y \<le> x * rounding_factor m)"

text \<open>
  \<open>np.cov\<close> of the rows of a matrix, as \<open>np.corrcoef\<close> calls it (\<open>ddof = 1\<close>):
  each row is centred on its mean, the products of the centred rows are summed, and the
  sums are multiplied by \<open>1 / fact\<close>, where \<open>fact\<close> is the row length minus one (set
  to zero when that is not positive).
\<close>

definition np_dot :: "npfloat list \<Rightarrow> npfloat list \<Rightarrow> npfloat" where
  "np_dot u v = fsum (map2 fmul u v)"

definition np_cov :: "npfloat list list \<Rightarrow> npfloat list list" where
  "np_cov X =
     (let ncols = (case X of [] \<Rightarrow> 0 | row # _ \<Rightarrow> length row);
          fact = (if real ncols - 1 \<le> 0 then 0 else real ncols - 1);
          Xc = map (\<lambda>row. (let avg = np_mean row in map (\<lambda>a. fsub a avg) row)) X
      in map (\<lambda>u. map (\<lambda>v. fmul (np_dot u v) (fdiv (Fin 1) (Fin fact))) Xc) Xc)"

text \<open>\<open>np.clip(c, -1, 1)\<close> keeps NaN; \<open>np.nan_to_num(c, nan=0.0)\<close> removes it.\<close>

fun np_clip :: "npfloat \<Rightarrow> real \<Rightarrow> real \<Rightarrow> npfloat" where
  "np_clip (Fin x) lo hi = Fin (min (max x lo) hi)"
| "np_clip PInf lo hi = Fin hi"
| "np_clip NInf lo hi = Fin lo"
| "np_clip NaN lo hi = NaN"

fun np_nan_to_num :: "npfloat \<Rightarrow> npfloat" where
  "np_nan_to_num (Fin x) = Fin x"
| "np_nan_to_num PInf = Fin float64_max"
| "np_nan_to_num NInf = Fin (- float64_max)"
| "np_nan_to_num NaN = Fin 0"

text \<open>
  \<open>np.corrcoef\<close> of a matrix with at least two rows: the covariance matrix, each
  entry divided by the standard deviation of its row and then by that of its column,
  and the result clipped to the interval from -1 to 1.
\<close>

definition np_corrcoef :: "npfloat list list \<Rightarrow> npfloat list list" where
  "np_corrcoef X =
     (let c = np_cov X;
          n = length c;
          stddev = map (\<lambda>i. fsqrt (c ! i ! i)) [0..<n]
      in map (\<lambda>i. map (\<lambda>j. np_clip (fdiv (fdiv (c ! i ! j) (stddev ! i)) (stddev ! j)) (- 1) 1)
                      [0..<n]) [0..<n])"

text \<open>
  \<open>min(len(r) for r in returns_matrix if r)\<close> raises \<open>ValueError\<close> when no series
  is left after the filter.
\<close>

definition calculate_correlation :: "npfloat list list \<Rightarrow> py_error + npfloat" where
  "calculate_correlation returns_matrix =
     (if length returns_matrix < 2 then Inr (Fin 0)
      else (case map length (filter (\<lambda>r. r \<noteq> []) returns_matrix) of
              [] \<Rightarrow> Inl ValueError
            | l # ls \<Rightarrow>
               (let min_len = min_list (l # ls) in
                if min_len < 2 then Inr (Fin 0)
                else (let trimmed = map (take min_len) (filter (\<lambda>r. r \<noteq> []) returns_matrix) in
                      if length trimmed < 2 then Inr (Fin 0)
                      else (let corr_matrix = map (map np_nan_to_num) (np_corrcoef trimmed);
                                n = length corr_matrix;
                                upper_triangle =
                                  concat (map (\<lambda>i. map (\<lambda>j. fabs (corr_matrix ! i ! j)) [i + 1..<n])
                                            [0..<n])
                            in if upper_triangle = [] then Inr (Fin 0)
                               else Inr (np_mean upper_triangle))))))"

definition default_weights :: "real \<times> real \<times> real" where
  "default_weights = (0.5, 0.3, 0.2)"

definition calculate_risk_score ::
  "npfloat \<Rightarrow> npfloat \<Rightarrow> npfloat \<Rightarrow> real \<times> real \<times> real \<Rightarrow> npfloat" where
  "calculate_risk_score volatility concentration correlation weights =
     (case weights of (w_vol, w_conc, w_corr) \<Rightarrow>
       (let norm_volatility = py_fmin volatility (Fin 1);
            raw_score = fadd (fadd (fmul (Fin w_vol) norm_volatility)
                                   (fmul (Fin w_conc) concentration))
                             (fmul (Fin w_corr) correlation);
            scaled_score = fadd (Fin 1) (fmul raw_score (Fin 9))
        in py_fround (py_fmax (Fin 1) (py_fmin (Fin 10) scaled_score)) 2))"

text \<open>
  An enriched holding is a dictionary read with \<open>.get(key, default)\<close>: a key may be
  absent.
\<close>

record holding =
  h_symbol :: "string option"
  h_current_price :: "real option"
  h_quantity :: "real option"
  h_historical_prices :: "real list option"











section \<open>agents/stock\_analyzer\_agent.py\<close>

record stock_recommendation =
  rec_symbol :: string
  recommendation :: string
  confidence :: string
  action :: fstring
  reasons :: "fstring list"

definition generate_stock_recommendation ::
  "string \<Rightarrow> real \<Rightarrow> real \<Rightarrow> real \<Rightarrow> real \<Rightarrow> stock_recommendation" where
  "generate_stock_recommendation symbol0 risk_score gain_loss_percent portfolio_weight volatility =
     (let symbol = upper symbol0;
          sell_signals =
            (if risk_score \<ge> 7 then 1 else 0) +
            (if gain_loss_percent < -15 then 1 else 0) +
            (if portfolio_weight > 35 then 1 else 0) +
            (if volatility > 45 then 1 else (0::nat));
          hold_signals =
            (if gain_loss_percent > 20 then 1 else 0) +
            (if risk_score \<le> 3 then 1 else 0) +
            (if volatility < 20 \<and> portfolio_weight < 25 then 1 else (0::nat));
          reasons0 =
            (if risk_score \<ge> 7
             then [[Lit ''High risk score ('', Repr risk_score, Lit ''/10)'']] else []) @
            (if gain_loss_percent < -15
             then [[Lit ''Significant loss ('', Fixed 1 gain_loss_percent, Lit ''%)'']] else []) @
            (if portfolio_weight > 35
             then [[Lit ''Over-concentrated ('', Fixed 1 portfolio_weight, Lit ''% of portfolio)'']]
             else []) @
            (if volatility > 45
             then [[Lit ''High volatility ('', Fixed 1 volatility, Lit ''%)'']] else []) @
            (if gain_loss_percent > 20
             then [[Lit ''Strong gains ('', Fixed 1 gain_loss_percent, Lit ''%)'']] else []) @
            (if risk_score \<le> 3 then [[Lit ''Low risk profile'']] else []) @
            (if volatility < 20 \<and> portfolio_weight < 25
             then [[Lit ''Well-balanced stable position'']] else []);
          (rcm, conf) =
            (if sell_signals \<ge> 2
             then (''SELL'', if sell_signals \<ge> 3 then ''HIGH'' else ''MEDIUM'')
             else if sell_signals = 1 \<and> hold_signals = 0 then (''REDUCE'', ''MEDIUM'')
             else if hold_signals \<ge> 2 then (''HOLD'', ''HIGH'')
             else (''HOLD'', ''LOW''));
          act =
            (if rcm = ''SELL''
             then [Lit ''Consider selling '', Str symbol, Lit '' to reduce portfolio risk'']
             else if rcm = ''REDUCE''
             then [Lit ''Consider reducing your '', Str symbol, Lit '' position by 25-50%'']
             else [Lit ''Keep holding '', Str symbol, Lit '' - no immediate action needed''])
      in \<lparr> rec_symbol = symbol, recommendation = rcm, confidence = conf, action = act,
           reasons = (if reasons0 \<noteq> [] then reasons0
                      else [[Lit ''Position is balanced and within normal parameters'']]) \<rparr>)"

section \<open>agents/scenario\_agent.py\<close>

record scenario_result =
  scenario :: fstring
  scenario_type :: string
  current_value :: real
  new_value :: real
  current_risk_score :: real
  new_risk_score :: real
  risk_change :: real
  impact :: string
  analysis :: fstring

text \<open>
  In the \<open>add_stock\<close> branch the source first computes
  \<open>weight_change = change_amount / new_value\<close>, a Python float division that raises
  \<open>ZeroDivisionError\<close> when \<open>new_value\<close> is zero; the quotient is not used afterwards.
\<close>

definition simulate_scenario ::
  "string \<Rightarrow> real \<Rightarrow> real \<Rightarrow> string \<Rightarrow> real \<Rightarrow> py_error + scenario_result" where
  "simulate_scenario stype current_portfolio_value current_risk stock_symbol change_amount =
     (if stype = ''add_stock'' then
        (let new_val = current_portfolio_value + change_amount in
         if new_val = 0 then Inl ZeroDivisionError
         else
           (let weight_change = change_amount / new_val;
                rchange =
                  (if upper stock_symbol \<in> set [''SPY'', ''VTI'', ''QQQ''] then - 0.8
                   else if upper stock_symbol \<in> set [''TSLA'', ''NVDA'', ''COIN''] then 0.6
                   else 0.2);
                new_risk = py_round (py_min 10 (py_max 1 (current_risk + rchange))) 2
            in Inr \<lparr> scenario =
                       [Lit ''Add $'', Grouped 0 change_amount, Lit '' to '', Str stock_symbol],
                     scenario_type = stype,
                     current_value = current_portfolio_value,
                     new_value = new_val,
                     current_risk_score = current_risk,
                     new_risk_score = new_risk,
                     risk_change = py_round rchange 2,
                     impact = (if rchange < 0 then ''POSITIVE''
                               else if rchange > 0.3 then ''NEGATIVE'' else ''NEUTRAL''),
                     analysis =
                       [Lit ''Adding '', Str stock_symbol,
                        Lit '' would change portfolio value to $'', Grouped 2 new_val,
                        Lit '' and '', Str (if rchange < 0 then ''reduce'' else ''increase''),
                        Lit '' risk by '', Fixed 1 \<bar>rchange\<bar>, Lit '' points.''] \<rparr>))
      else if stype = ''remove_stock'' then
        (let new_val = current_portfolio_value - change_amount;
             rchange = (if current_portfolio_value > 0 then 0.3 else 0);
             new_risk = py_round (py_min 10 (py_max 1 (current_risk + rchange))) 2
         in Inr \<lparr> scenario =
                    [Lit ''Sell '', Str stock_symbol, Lit '' ($'', Grouped 0 change_amount, Lit '')''],
                  scenario_type = stype,
                  current_value = current_portfolio_value,
                  new_value = py_max 0 new_val,
                  current_risk_score = current_risk,
                  new_risk_score = new_risk,
                  risk_change = py_round rchange 2,
                  impact = ''CAUTIONARY'',
                  analysis =
                    [Lit ''Selling '', Str stock_symbol,
                     Lit '' would reduce portfolio to $'', Grouped 2 new_val,
                     Lit ''. Consider the concentration impact on remaining positions.''] \<rparr>)
      else if stype = ''increase_position'' then
        (let new_val = current_portfolio_value + change_amount;
             rchange = 0.4;
             new_risk = py_round (py_min 10 (py_max 1 (current_risk + rchange))) 2
         in Inr \<lparr> scenario =
                    [Lit ''Increase '', Str stock_symbol, Lit '' by $'', Grouped 0 change_amount],
                  scenario_type = stype,
                  current_value = current_portfolio_value,
                  new_value = new_val,
                  current_risk_score = current_risk,
                  new_risk_score = new_risk,
                  risk_change = py_round rchange 2,
                  impact = ''CAUTIONARY'',
                  analysis =
                    [Lit ''Increasing position in '', Str stock_symbol,
                     Lit '' would add $'', Grouped 0 change_amount,
                     Lit '' but also increase concentration risk.''] \<rparr>)
      else
        (let new_val = current_portfolio_value - change_amount;
             rchange = - 0.2;
             new_risk = py_round (py_min 10 (py_max 1 (current_risk + rchange))) 2
         in Inr \<lparr> scenario =
                    [Lit ''Decrease '', Str stock_symbol, Lit '' by $'', Grouped 0 change_amount],
                  scenario_type = stype,
                  current_value = current_portfolio_value,
                  new_value = py_max 0 new_val,
                  current_risk_score = current_risk,
                  new_risk_score = new_risk,
                  risk_change = py_round rchange 2,
                  impact = ''POSITIVE'',
                  analysis =
                    [Lit ''Reducing '', Str stock_symbol,
                     Lit '' position could improve diversification and lower concentration risk.''] \<rparr>))"

text \<open>
  \<open>min(scenarios, key=...)\<close>: the first element whose key is minimal; it raises
  \<open>ValueError\<close> on an empty list.
\<close>

fun py_min_by :: "('a \<Rightarrow> real) \<Rightarrow> 'a list \<Rightarrow> py_error + 'a" where
  "py_min_by key [] = Inl ValueError"
| "py_min_by key (x # xs) = Inr (foldl (\<lambda>best y. if key y < key best then y else best) x xs)"

text \<open>The sentence that \<open>get_scenario_recommendation\<close> formats for the scenario it chose.\<close>

definition recommendation_sentence :: "scenario_result \<Rightarrow> fstring" where
  "recommendation_sentence best_scenario =
     [Lit (''Based on analysis, '' @ [CHR 0x27])] @ scenario best_scenario @
     [Lit ([CHR 0x27] @ '' would result in the most favorable risk profile (Risk Score: ''),
      Repr (new_risk_score best_scenario), Lit '').'']"

definition get_scenario_recommendation :: "scenario_result list \<Rightarrow> py_error + fstring" where
  "get_scenario_recommendation scenarios =
     (case py_min_by new_risk_score scenarios of
        Inl e \<Rightarrow> Inl e
      | Inr best_scenario \<Rightarrow> Inr (recommendation_sentence best_scenario))"

record scenario_comparison =
  scenarios :: "scenario_result list"
  recommendation_text :: fstring

definition run_multiple_scenarios ::
  "real \<Rightarrow> real \<Rightarrow> string \<Rightarrow> real \<Rightarrow> py_error + scenario_comparison" where
  "run_multiple_scenarios portfolio_value risk_score largest_holding largest_holding_value =
     (case simulate_scenario ''add_stock'' portfolio_value risk_score ''SPY'' 10000 of
        Inl e \<Rightarrow> Inl e
      | Inr s1 \<Rightarrow>
     (case simulate_scenario ''increase_position'' portfolio_value risk_score largest_holding 5000 of
        Inl e \<Rightarrow> Inl e
      | Inr s2 \<Rightarrow>
     (case simulate_scenario ''decrease_position'' portfolio_value risk_score largest_holding
             (largest_holding_value * 0.3) of
        Inl e \<Rightarrow> Inl e
      | Inr s3 \<Rightarrow>
     (case get_scenario_recommendation [s1, s2, s3] of
        Inl e \<Rightarrow> Inl e
      | Inr r \<Rightarrow> Inr \<lparr> scenarios = [s1, s2, s3], recommendation_text = r \<rparr>))))"

text \<open>
  The counts of the claim, written from its words: the number of sell signals and the
  number of hold signals that an input raises.
\<close>

definition sell_count :: "real \<Rightarrow> real \<Rightarrow> real \<Rightarrow> real \<Rightarrow> nat" where
  "sell_count risk_score gain_loss_percent portfolio_weight volatility =
     length (filter id
       [risk_score \<ge> 7, gain_loss_percent < -15, portfolio_weight > 35, volatility > 45])"

definition hold_count :: "real \<Rightarrow> real \<Rightarrow> real \<Rightarrow> real \<Rightarrow> nat" where
  "hold_count risk_score gain_loss_percent portfolio_weight volatility =
     length (filter id
       [gain_loss_percent > 20, risk_score \<le> 3, volatility < 20 \<and> portfolio_weight < 25])"

section \<open>Properties of the stock recommendation\<close>

text \<open>
  C9. With \<open>sell\<close> the number of sell signals (risk score at least 7, loss below -15,
  weight above 35, volatility above 45) and \<open>hold\<close> the number of hold signals (gain
  above 20, risk score at most 3, volatility below 20 together with weight below 25),
  \<open>generate_stock_recommendation\<close> answers SELL when \<open>sell \<ge> 2\<close> (confidence HIGH
  from three signals on, MEDIUM otherwise), REDUCE with MEDIUM confidence when
  \<open>sell = 1\<close> and \<open>hold = 0\<close>, HOLD with HIGH confidence when otherwise
  \<open>hold \<ge> 2\<close>, and HOLD with LOW confidence in every other case; risk score 8,
  loss -20, weight 40 and volatility 50 give SELL with HIGH confidence.
\<close>

theorem generate_stock_recommendation_rule_table:
  "(let r = generate_stock_recommendation symbol0 risk_score gain_loss_percent portfolio_weight volatility;
        sell = sell_count risk_score gain_loss_percent portfolio_weight volatility;
        hold = hold_count risk_score gain_loss_percent portfolio_weight volatility
    in (recommendation r, confidence r) =
         (if sell \<ge> 2 then (''SELL'', if sell \<ge> 3 then ''HIGH'' else ''MEDIUM'')
          else if sell = 1 \<and> hold = 0 then (''REDUCE'', ''MEDIUM'')
          else if hold \<ge> 2 then (''HOLD'', ''HIGH'')
          else (''HOLD'', ''LOW'')))
   \<and> recommendation (generate_stock_recommendation s 8 (-20) 40 50) = ''SELL''
   \<and> confidence (generate_stock_recommendation s 8 (-20) 40 50) = ''HIGH''"
  by (simp add: generate_stock_recommendation_def sell_count_def hold_count_def Let_def)

section \<open>Properties of the scenario simulator\<close>

lemma upper_SPY: "upper ''SPY'' = ''SPY''"
  by code_simp

lemma upper_TSLA: "upper ''TSLA'' = ''TSLA''"
  by code_simp

lemma py_round_neg_fifth: "py_round (- (1 / 5)) 2 = - (1 / 5)"
  by (simp add: py_round_def round_half_even_def Let_def)

text \<open>
  What the \<open>add_stock\<close> branch returns whenever the projected value is not zero:
  the new value is the sum, the risk delta follows the symbol class.
\<close>

lemma simulate_scenario_add_stock_returns:
  assumes "cpv + ca \<noteq> 0"
  shows "\<exists>r. simulate_scenario ''add_stock'' cpv crs stock_symbol ca = Inr r \<and>
     new_value r = cpv + ca \<and>
     new_risk_score r = py_round (py_min 10 (py_max 1 (crs +
        (if upper stock_symbol \<in> {''SPY'', ''VTI'', ''QQQ''} then - 0.8
         else if upper stock_symbol \<in> {''TSLA'', ''NVDA'', ''COIN''} then 0.6 else 0.2)))) 2"
  using assms by (simp add: simulate_scenario_def Let_def)

lemma simulate_scenario_add_SPY_example:
  "\<exists>r. simulate_scenario ''add_stock'' 100000 5 ''SPY'' 10000 = Inr r \<and>
     new_value r = 110000 \<and> new_risk_score r = 4.2"
  by (simp add: simulate_scenario_def upper_SPY py_round_def round_half_even_def
      py_min_def py_max_def Let_def)

lemma simulate_scenario_add_TSLA_example:
  "\<exists>r. simulate_scenario ''add_stock'' 100000 5 ''TSLA'' 10000 = Inr r \<and>
     new_value r = 110000 \<and> new_risk_score r = 5.6"
  by (simp add: simulate_scenario_def upper_TSLA py_round_def round_half_even_def
      py_min_def py_max_def Let_def)

text \<open>
  C7. The claim promises, for every add-stock scenario, the new value
  \<open>current_portfolio_value + change_amount\<close> and the new risk score. The branch
  divides \<open>change_amount\<close> by the new value before anything else, so adding 0 dollars of
  SPY to a portfolio worth 0 (risk score 5) returns nothing: it raises
  \<open>ZeroDivisionError\<close>.
\<close>

theorem simulate_scenario_add_stock_zero_value_raises:
  "simulate_scenario ''add_stock'' 0 5 ''SPY'' 0 = Inl ZeroDivisionError"
  by (simp add: simulate_scenario_def)

text \<open>
  C10. Every scenario type other than \<open>add_stock\<close>, \<open>remove_stock\<close> and
  \<open>increase_position\<close>, whatever the string, is handled by the decrease-position
  branch: it returns (no exception) with risk delta -0.2, new risk score
  \<open>round(min(10, max(1, current_risk_score - 0.2)), 2)\<close> and the reported new value
  \<open>max(0, current_portfolio_value - change_amount)\<close>, which is not negative.
\<close>

theorem simulate_scenario_other_types_decrease:
  assumes "stype \<noteq> ''add_stock''" "stype \<noteq> ''remove_stock''" "stype \<noteq> ''increase_position''"
  shows "\<exists>r. simulate_scenario stype cpv crs stock_symbol ca = Inr r \<and>
     risk_change r = - 0.2 \<and>
     new_risk_score r = py_round (py_min 10 (py_max 1 (crs - 0.2))) 2 \<and>
     new_value r = max 0 (cpv - ca) \<and> 0 \<le> new_value r \<and>
     scenario r = [Lit ''Decrease '', Str stock_symbol, Lit '' by $'', Grouped 0 ca] \<and>
     impact r = ''POSITIVE''"
  using assms by (simp add: simulate_scenario_def Let_def py_round_neg_fifth py_max_def max_def)

theorem simulate_scenario_other_types_decrease_witness:
  "\<exists>r. simulate_scenario ''rebalance'' 1000 5 ''AAPL'' 1500 = Inr r \<and>
     risk_change r = - 0.2 \<and> new_risk_score r = 4.8 \<and> new_value r = 0 \<and>
     impact r = ''POSITIVE''"
proof -
  have "py_round (py_min 10 (py_max 1 (5 - 0.2))) 2 = 4.8"
    by (simp add: py_round_def round_half_even_def py_min_def py_max_def Let_def)
  then show ?thesis
    using simulate_scenario_other_types_decrease [of "''rebalance''" 1000 5 "''AAPL''" 1500]
    by auto
qed

text \<open>
  The choice of \<open>min(scenarios, key=...)\<close> over a non-empty list: an element of least
  key, and the earliest of those.
\<close>

lemma py_min_by_foldl:
  fixes key :: "'a \<Rightarrow> real"
  shows "\<exists>i < Suc (length xs). foldl (\<lambda>best y. if key y < key best then y else best) x xs = (x # xs) ! i
     \<and> (\<forall>j < Suc (length xs). key ((x # xs) ! i) \<le> key ((x # xs) ! j))
     \<and> (\<forall>j < i. key ((x # xs) ! i) < key ((x # xs) ! j))"
proof (induction xs arbitrary: x rule: rev_induct)
  case Nil
  then show ?case by simp
next
  case (snoc y ys)
  then obtain i where i: "i < Suc (length ys)"
      "foldl (\<lambda>best y. if key y < key best then y else best) x ys = (x # ys) ! i"
      "\<forall>j < Suc (length ys). key ((x # ys) ! i) \<le> key ((x # ys) ! j)"
      "\<forall>j < i. key ((x # ys) ! i) < key ((x # ys) ! j)"
    by blast
  let ?b = "(x # ys) ! i"
  have nth_old: "\<And>j. j < Suc (length ys) \<Longrightarrow> (x # ys @ [y]) ! j = (x # ys) ! j"
    by (metis append_Cons length_Cons nth_append)
  have nth_new: "(x # ys @ [y]) ! Suc (length ys) = y"
    by (metis append_Cons length_Cons nth_append_length)
  show ?case
  proof (cases "key y < key ?b")
    case True
    have "foldl (\<lambda>best y. if key y < key best then y else best) x (ys @ [y]) = y"
      using True i(2) by simp
    moreover have "\<forall>j < Suc (length (ys @ [y])). key y \<le> key ((x # ys @ [y]) ! j)"
    proof (intro allI impI)
      fix j assume "j < Suc (length (ys @ [y]))"
      then consider "j < Suc (length ys)" | "j = Suc (length ys)" by fastforce
      then show "key y \<le> key ((x # ys @ [y]) ! j)"
      proof cases
        case 1
        then show ?thesis using nth_old[OF 1] i(3) True by fastforce
      next
        case 2
        then show ?thesis using nth_new by simp
      qed
    qed
    moreover have "\<forall>j < Suc (length ys). key y < key ((x # ys @ [y]) ! j)"
    proof (intro allI impI)
      fix j assume 1: "j < Suc (length ys)"
      then show "key y < key ((x # ys @ [y]) ! j)" using nth_old[OF 1] i(3) True by fastforce
    qed
    ultimately show ?thesis
      using nth_new by (intro exI[of _ "Suc (length ys)"]) simp
  next
    case False
    have "foldl (\<lambda>best y. if key y < key best then y else best) x (ys @ [y]) = ?b"
      using False i(2) by simp
    moreover have "\<forall>j < Suc (length (ys @ [y])). key ?b \<le> key ((x # ys @ [y]) ! j)"
    proof (intro allI impI)
      fix j assume "j < Suc (length (ys @ [y]))"
      then consider "j < Suc (length ys)" | "j = Suc (length ys)" by fastforce
      then show "key ?b \<le> key ((x # ys @ [y]) ! j)"
      proof cases
        case 1
        then show ?thesis using nth_old[OF 1] i(3) by simp
      next
        case 2
        then show ?thesis using nth_new False by simp
      qed
    qed
    moreover have bi: "(x # ys @ [y]) ! i = ?b"
      using nth_old[OF i(1)] .
    moreover have "\<forall>j < i. key ?b < key ((x # ys @ [y]) ! j)"
    proof (intro allI impI)
      fix j assume "j < i"
      then have 1: "j < Suc (length ys)" using i(1) by simp
      show "key ?b < key ((x # ys @ [y]) ! j)"
        using nth_old[OF 1] i(4) \<open>j < i\<close> by simp
    qed
    moreover have "i < Suc (length (ys @ [y]))"
      using i(1) by simp
    ultimately have "i < Suc (length (ys @ [y])) \<and>
        foldl (\<lambda>best y. if key y < key best then y else best) x (ys @ [y]) = (x # ys @ [y]) ! i \<and>
        (\<forall>j < Suc (length (ys @ [y])). key ((x # ys @ [y]) ! i) \<le> key ((x # ys @ [y]) ! j)) \<and>
        (\<forall>j < i. key ((x # ys @ [y]) ! i) < key ((x # ys @ [y]) ! j))"
      by (simp only: bi)
    then show ?thesis
      by (intro exI[of _ i]) simp
  qed
qed

lemma py_min_by_first_least:
  fixes key :: "'a \<Rightarrow> real"
  assumes "xs \<noteq> []"
  shows "\<exists>i < length xs. py_min_by key xs = Inr (xs ! i) \<and>
     (\<forall>j < length xs. key (xs ! i) \<le> key (xs ! j)) \<and> (\<forall>j < i. key (xs ! i) < key (xs ! j))"
proof (cases xs)
  case Nil
  then show ?thesis using assms by simp
next
  case (Cons x ys)
  then show ?thesis using py_min_by_foldl [of ys key x] by simp
qed

text \<open>
  Whenever the portfolio value is not -10000, \<open>run_multiple_scenarios\<close> returns the
  three scenarios in order and recommends the first one of least new risk score.
\<close>

lemma run_multiple_scenarios_returns:
  assumes "portfolio_value \<noteq> - 10000"
  shows "\<exists>s1 s2 s3 i.
     simulate_scenario ''add_stock'' portfolio_value risk_score ''SPY'' 10000 = Inr s1 \<and>
     simulate_scenario ''increase_position'' portfolio_value risk_score largest_holding 5000 = Inr s2 \<and>
     simulate_scenario ''decrease_position'' portfolio_value risk_score largest_holding
        (largest_holding_value * 0.3) = Inr s3 \<and>
     i < 3 \<and>
     (\<forall>j < 3. new_risk_score ([s1, s2, s3] ! i) \<le> new_risk_score ([s1, s2, s3] ! j)) \<and>
     (\<forall>j < i. new_risk_score ([s1, s2, s3] ! i) < new_risk_score ([s1, s2, s3] ! j)) \<and>
     run_multiple_scenarios portfolio_value risk_score largest_holding largest_holding_value =
       Inr \<lparr> scenarios = [s1, s2, s3],
             recommendation_text = recommendation_sentence ([s1, s2, s3] ! i) \<rparr>"
proof -
  obtain s1 where s1: "simulate_scenario ''add_stock'' portfolio_value risk_score ''SPY'' 10000 = Inr s1"
    using simulate_scenario_add_stock_returns [of portfolio_value 10000 risk_score "''SPY''"] assms
    by auto
  obtain s2 where s2:
    "simulate_scenario ''increase_position'' portfolio_value risk_score largest_holding 5000 = Inr s2"
    by (simp add: simulate_scenario_def Let_def)
  obtain s3 where s3:
    "simulate_scenario ''decrease_position'' portfolio_value risk_score largest_holding
        (largest_holding_value * 0.3) = Inr s3"
    by (simp add: simulate_scenario_def Let_def)
  obtain i where i: "i < length [s1, s2, s3]"
      "py_min_by new_risk_score [s1, s2, s3] = Inr ([s1, s2, s3] ! i)"
      "\<forall>j < length [s1, s2, s3]. new_risk_score ([s1, s2, s3] ! i) \<le> new_risk_score ([s1, s2, s3] ! j)"
      "\<forall>j < i. new_risk_score ([s1, s2, s3] ! i) < new_risk_score ([s1, s2, s3] ! j)"
    using py_min_by_first_least [of "[s1, s2, s3]" new_risk_score] by blast
  have len: "length [s1, s2, s3] = 3"
    by simp
  have "run_multiple_scenarios portfolio_value risk_score largest_holding largest_holding_value =
       Inr \<lparr> scenarios = [s1, s2, s3],
             recommendation_text = recommendation_sentence ([s1, s2, s3] ! i) \<rparr>"
    using s1 s2 s3 i(2)
    by (simp add: run_multiple_scenarios_def get_scenario_recommendation_def
        del: py_min_by.simps)
  then show ?thesis
    using s1 s2 s3 i(1,3,4) unfolding len by blast
qed

text \<open>
  C8. The claim promises three scenarios and a recommendation for every portfolio
  value. The first scenario adds 10000 dollars of SPY through the \<open>add_stock\<close> branch
  of \<open>simulate_scenario\<close>, whose division by the new value raises when the portfolio
  value is -10000: \<open>run_multiple_scenarios\<close> then returns no scenario at all.
\<close>

theorem run_multiple_scenarios_raises:
  "run_multiple_scenarios (- 10000) 5 ''AAPL'' 30000 = Inl ZeroDivisionError"
  by (simp add: run_multiple_scenarios_def simulate_scenario_def)

section \<open>Properties of the return series\<close>

lemma length_np_diff: "length (np_diff a) = length a - 1"
  by (simp add: np_diff_def)

lemma nth_np_diff: "i < length a - 1 \<Longrightarrow> np_diff a ! i = a ! Suc i - a ! i"
  by (simp add: np_diff_def nth_butlast nth_tl)

lemma length_calculate_returns: "length (calculate_returns prices) = length prices - 1"
  by (simp add: calculate_returns_def length_np_diff)

lemma nth_calculate_returns:
  assumes "i < length prices - 1"
  shows "calculate_returns prices ! i =
     (if prices ! i \<noteq> 0 then Fin ((prices ! Suc i - prices ! i) / prices ! i)
      else inf_signed (prices ! Suc i))"
proof -
  have "\<not> length prices < 2" using assms by simp
  then have "calculate_returns prices ! i = fdiv (Fin (np_diff prices ! i)) (Fin (butlast prices ! i))"
    using assms by (simp add: calculate_returns_def length_np_diff)
  then show ?thesis
    using assms by (simp add: nth_np_diff nth_butlast)
qed

lemma is_finite_inf_signed: "\<not> is_finite (inf_signed x)"
  by (simp add: inf_signed_def)

text \<open>
  C3 (as stated). The claim says that a zero price before the last position is guarded
  and never yields an infinite or NaN return. The source divides without a guard: for
  the prices 0, 1 the only return is \<open>(1 - 0) / 0\<close>, which numpy evaluates to
  \<open>+inf\<close>.
\<close>

theorem calculate_returns_zero_price_counterexample:
  "0 \<in> set (butlast [0, 1 :: real]) \<and> calculate_returns [0, 1] = [PInf] \<and>
   \<not> list_all is_finite (calculate_returns [0, 1])"
  by (simp add: calculate_returns_def np_diff_def inf_signed_def)

text \<open>
  C3 (amended). \<open>calculate_returns\<close> does not guard a zero price. It returns one
  return per pair of consecutive prices, and a zero price at a position other than the
  last gives an infinite or NaN return at that position.
\<close>

theorem calculate_returns_zero_price_unguarded:
  "length (calculate_returns prices) = length prices - 1 \<and>
   (\<forall>i < length prices - 1.
      prices ! i = 0 \<longrightarrow> \<not> is_finite (calculate_returns prices ! i))"
  by (simp add: length_calculate_returns nth_calculate_returns is_finite_inf_signed)

theorem calculate_returns_zero_price_unguarded_witness:
  "length (calculate_returns [100, 0, 50, 0, 0, - 2]) = 5 \<and>
   \<not> is_finite (calculate_returns [100, 0, 50, 0, 0, - 2] ! 1) \<and>
   \<not> is_finite (calculate_returns [100, 0, 50, 0, 0, - 2] ! 3) \<and>
   \<not> is_finite (calculate_returns [100, 0, 50, 0, 0, - 2] ! 4)"
proof -
  let ?p = "[100, 0, 50, 0, 0, - 2 :: real]"
  note t = calculate_returns_zero_price_unguarded [of ?p]
  have len: "length ?p - 1 = 5"
    by simp
  from t have nth: "\<And>i. i < 5 \<Longrightarrow> ?p ! i = 0 \<Longrightarrow> \<not> is_finite (calculate_returns ?p ! i)"
    unfolding len by blast
  have "\<not> is_finite (calculate_returns ?p ! 1)"
    using nth [of 1] by simp
  moreover have "\<not> is_finite (calculate_returns ?p ! 3)"
    using nth [of 3] by (simp add: numeral_3_eq_3)
  moreover have "\<not> is_finite (calculate_returns ?p ! 4)"
    using nth [of 4] by (simp add: eval_nat_numeral)
  moreover have "length (calculate_returns ?p) = 5"
    using t len by simp
  ultimately show ?thesis
    by blast
qed

section \<open>Properties of the concentration index\<close>

lemma hhi_scale:
  assumes "0 < k"
  shows "calculate_hhi (map (\<lambda>w. k * w) weights) = calculate_hhi weights"
proof -
  have s: "sum_list (map (\<lambda>w. k * w) weights) = k * sum_list weights"
    by (simp add: sum_list_const_mult)
  have pos: "(0 < k * sum_list weights) = (0 < sum_list weights)"
    using assms by (simp add: zero_less_mult_iff)
  have q: "\<And>w. (k * w / (k * sum_list weights)) ^ 2 = (w / sum_list weights) ^ 2"
    using assms by simp
  show ?thesis
    using assms by (simp add: calculate_hhi_def Let_def s pos comp_def)
qed

lemma hhi_zero: "weights = [] \<or> sum_list weights \<le> 0 \<Longrightarrow> calculate_hhi weights = 0"
  by (auto simp: calculate_hhi_def Let_def)

text \<open>
  The two lemmas above are about the exact index. The float64 computation is related
  to it through the roundings of its operations.
\<close>

lemma float64_max_ge_2: "2 \<le> float64_max"
proof -
  have "(2::real) ^ 1023 \<ge> 2 ^ 1" by (rule power_increasing) simp_all
  moreover have "(1::real) \<le> 2 - 1 / 2 ^ 52" by simp
  ultimately have "1 * 2 ^ 1 \<le> (2 - 1 / 2 ^ 52) * (2::real) ^ 1023"
    by (intro mult_mono) simp_all
  then show ?thesis by (simp add: float64_max_def)
qed

lemma unit_roundoff_bounds: "0 < unit_roundoff" "unit_roundoff < 1"
  by (simp_all add: unit_roundoff_def)

lemma rounding_factor_1: "rounding_factor 1 = (1 + unit_roundoff) / (1 - unit_roundoff)"
  by (simp add: rounding_factor_def)

lemma rounding_base_ge_1: "1 \<le> (1 + unit_roundoff) / (1 - unit_roundoff)"
  using unit_roundoff_bounds by (simp add: le_divide_eq)

lemma rounding_factor_ge_1: "1 \<le> rounding_factor m"
  unfolding rounding_factor_def using rounding_base_ge_1 by (rule one_le_power)

lemma rounding_factor_pos: "0 < rounding_factor m"
  using rounding_factor_ge_1 [of m] by linarith

lemma rounding_factor_add: "rounding_factor (m + n) = rounding_factor m * rounding_factor n"
  by (simp add: rounding_factor_def power_add)

lemma rounding_factor_mono: "m \<le> n \<Longrightarrow> rounding_factor m \<le> rounding_factor n"
  unfolding rounding_factor_def using rounding_base_ge_1 by (simp add: power_increasing)

lemma agree_within_refl: "agree_within 0 x x"
  by (simp add: agree_within_def rounding_factor_def)

lemma agree_within_sym: "agree_within m x y \<Longrightarrow> agree_within m y x"
  by (simp add: agree_within_def)

lemma le_factor_trans:
  assumes "x \<le> y * rounding_factor m" "y \<le> z * rounding_factor n"
  shows "x \<le> z * rounding_factor (n + m)"
proof -
  have "y * rounding_factor m \<le> (z * rounding_factor n) * rounding_factor m"
    using assms(2) rounding_factor_pos [of m] by (simp add: mult_right_mono)
  then show ?thesis
    using assms(1) by (simp add: rounding_factor_add mult.assoc)
qed

lemma agree_within_trans:
  assumes "agree_within m x y" "agree_within n y z"
  shows "agree_within (m + n) x z"
  using assms le_factor_trans [of x y m z n] le_factor_trans [of z y n x m]
  by (simp add: agree_within_def add.commute)

lemma agree_within_mono:
  assumes "agree_within m x y" "m \<le> n" "0 \<le> x" "0 \<le> y"
  shows "agree_within n x y"
proof -
  have "y * rounding_factor m \<le> y * rounding_factor n" "x * rounding_factor m \<le> x * rounding_factor n"
    using assms(2-4) by (simp_all add: mult_left_mono rounding_factor_mono)
  then show ?thesis
    using assms(1) by (auto simp: agree_within_def)
qed

lemma agree_within_add:
  assumes "agree_within m x y" "agree_within m x' y'"
  shows "agree_within m (x + x') (y + y')"
  using assms by (simp add: agree_within_def distrib_right)

lemma le_factor_mult:
  assumes "x \<le> y * rounding_factor m" "x' \<le> y' * rounding_factor n" "0 \<le> x" "0 \<le> x'" "0 \<le> y" "0 \<le> y'"
  shows "x * x' \<le> (y * y') * rounding_factor (m + n)"
proof -
  have "x * x' \<le> (y * rounding_factor m) * (y' * rounding_factor n)"
    using assms rounding_factor_pos [of m] by (intro mult_mono) simp_all
  then show ?thesis
    by (simp add: rounding_factor_add mult_ac)
qed

lemma agree_within_mult:
  assumes "agree_within m x y" "agree_within n x' y'" "0 \<le> x" "0 \<le> x'" "0 \<le> y" "0 \<le> y'"
  shows "agree_within (m + n) (x * x') (y * y')"
  using assms le_factor_mult [of x y m x' y' n] le_factor_mult [of y x m y' x' n]
  by (simp add: agree_within_def)

lemma le_factor_divide:
  assumes "x \<le> y * rounding_factor m" "y' \<le> x' * rounding_factor n" "0 \<le> x" "0 < x'" "0 \<le> y" "0 < y'"
  shows "x / x' \<le> (y / y') * rounding_factor (m + n)"
proof -
  have "x * y' \<le> (y * rounding_factor m) * (x' * rounding_factor n)"
    using assms rounding_factor_pos [of m] by (intro mult_mono) simp_all
  then have "x * y' \<le> (y * rounding_factor (m + n)) * x'"
    by (simp add: rounding_factor_add mult_ac)
  then have "x / x' \<le> (y * rounding_factor (m + n)) / y'"
    using assms(4,6) by (simp add: field_simps)
  then show ?thesis
    by simp
qed

lemma agree_within_divide:
  assumes "agree_within m x y" "agree_within n x' y'" "0 \<le> x" "0 < x'" "0 \<le> y" "0 < y'"
  shows "agree_within (m + n) (x / x') (y / y')"
  using assms le_factor_divide [of x y m y' x' n] le_factor_divide [of y x m x' y' n]
  by (simp add: agree_within_def)

lemma agree_within_sum_list:
  assumes "\<forall>v \<in> set vs. agree_within m (f v) (g v)"
  shows "agree_within m (sum_list (map f vs)) (sum_list (map g vs))"
  using assms
proof (induction vs)
  case Nil
  then show ?case by (simp add: agree_within_def)
next
  case (Cons v vs)
  then show ?case by (simp add: agree_within_add)
qed

lemma float64_min_normal_pos: "0 < float64_min_normal"
  by (simp add: float64_min_normal_def)

lemma normal_or_zero_nonneg: "normal_or_zero x \<Longrightarrow> 0 \<le> x"
  using float64_min_normal_pos by (auto simp: normal_or_zero_def)

lemma normal_or_zero_add: "normal_or_zero x \<Longrightarrow> normal_or_zero y \<Longrightarrow> normal_or_zero (x + y)"
  using float64_min_normal_pos by (auto simp: normal_or_zero_def)

lemma normal_or_zero_rounded:
  assumes "accurate_rounding rnd" "normal_or_zero x"
  shows "normal_or_zero (rnd x)"
proof (cases "x = 0")
  case True
  have "\<bar>rnd 0 - 0\<bar> \<le> unit_roundoff * \<bar>0\<bar>"
    using assms(1) unfolding accurate_rounding_def by blast
  then show ?thesis
    using True by (simp add: normal_or_zero_def)
next
  case False
  then have "float64_min_normal \<le> x"
    using assms(2) by (simp add: normal_or_zero_def)
  then have "rnd float64_min_normal \<le> rnd x"
    using assms(1) unfolding accurate_rounding_def by blast
  then show ?thesis
    using assms(1) by (simp add: accurate_rounding_def normal_or_zero_def)
qed

lemma accurate_rounding_nonneg:
  assumes "accurate_rounding rnd" "normal_or_zero x"
  shows "0 \<le> rnd x" "agree_within 1 (rnd x) x"
proof -
  let ?u = unit_roundoff
  have x0: "0 \<le> x"
    using assms(2) by (rule normal_or_zero_nonneg)
  have "x = 0 \<or> float64_min_normal \<le> \<bar>x\<bar>"
    using assms(2) x0 by (auto simp: normal_or_zero_def)
  then have "\<bar>rnd x - x\<bar> \<le> ?u * \<bar>x\<bar>"
    using assms(1) unfolding accurate_rounding_def by blast
  then have b: "\<bar>rnd x - x\<bar> \<le> ?u * x"
    using x0 by simp
  have lo: "(1 - ?u) * x \<le> rnd x" and hi: "rnd x \<le> (1 + ?u) * x"
    using b by (simp_all add: algebra_simps abs_le_iff)
  have "0 \<le> (1 - ?u) * x"
    using unit_roundoff_bounds x0 by simp
  then show "0 \<le> rnd x" using lo by linarith
  have "1 \<le> 1 / (1 - ?u)"
    using unit_roundoff_bounds by (simp add: le_divide_eq)
  moreover have "0 \<le> (1 + ?u) * x"
    using unit_roundoff_bounds x0 by simp
  ultimately have "(1 + ?u) * x * 1 \<le> (1 + ?u) * x * (1 / (1 - ?u))"
    by (rule mult_left_mono)
  then have "(1 + ?u) * x \<le> x * ((1 + ?u) / (1 - ?u))"
    by (simp add: mult.commute)
  then have 1: "rnd x \<le> x * rounding_factor 1"
    using hi unfolding rounding_factor_1 by linarith
  have "(1 - ?u) * x * ((1 + ?u) / (1 - ?u)) = (1 + ?u) * x"
    using unit_roundoff_bounds by simp
  moreover have "(1 - ?u) * x * ((1 + ?u) / (1 - ?u)) \<le> rnd x * ((1 + ?u) / (1 - ?u))"
    using lo rounding_base_ge_1 by (intro mult_right_mono) simp_all
  moreover have "x \<le> (1 + ?u) * x"
    using unit_roundoff_bounds x0 by (simp add: mult_le_cancel_right1)
  ultimately have 2: "x \<le> rnd x * rounding_factor 1"
    unfolding rounding_factor_1 by linarith
  show "agree_within 1 (rnd x) x"
    unfolding agree_within_def using 1 2 by blast
qed

lemma fl_in_range: "- float64_max \<le> rnd x \<Longrightarrow> rnd x \<le> float64_max \<Longrightarrow> fl rnd x = Fin (rnd x)"
  by (simp add: fl_def Let_def)

lemma sum_list_nonneg_real:
  fixes xs :: "real list"
  shows "\<forall>x \<in> set xs. 0 \<le> x \<Longrightarrow> 0 \<le> sum_list xs"
  by (induction xs) auto

lemma np_sum64_snoc: "np_sum64 rnd (xs @ [x]) = fadd64 rnd (np_sum64 rnd xs) x"
  by (simp add: np_sum64_def)

lemma np_sum64_nonneg:
  assumes "accurate_rounding rnd" "\<forall>x \<in> set xs. normal_or_zero x"
    "sum_list xs * rounding_factor (length xs) \<le> float64_max"
  shows "\<exists>s. np_sum64 rnd (map Fin xs) = Fin s \<and> normal_or_zero s \<and>
           agree_within (length xs) s (sum_list xs)"
  using assms(2,3)
proof (induction xs rule: rev_induct)
  case Nil
  then show ?case by (simp add: np_sum64_def agree_within_def normal_or_zero_def)
next
  case (snoc x xs)
  let ?n = "length xs"
  have nx: "normal_or_zero x" and nxs: "\<forall>y \<in> set xs. normal_or_zero y"
    using snoc.prems(1) by simp_all
  have x: "0 \<le> x" and xs: "\<forall>y \<in> set xs. 0 \<le> y"
    using nx nxs normal_or_zero_nonneg by blast+
  have S: "0 \<le> sum_list xs"
    using xs by (rule sum_list_nonneg_real)
  have "sum_list xs * rounding_factor ?n \<le> (sum_list xs + x) * rounding_factor (?n + 1)"
    using S x rounding_factor_mono [of ?n "?n + 1"] rounding_factor_pos [of ?n]
    by (intro mult_mono) simp_all
  then have "sum_list xs * rounding_factor ?n \<le> float64_max"
    using snoc.prems(2) by simp
  then obtain s where s: "np_sum64 rnd (map Fin xs) = Fin s" "normal_or_zero s"
      "agree_within ?n s (sum_list xs)"
    using snoc.IH nxs by blast
  have sx: "normal_or_zero (s + x)"
    using s(2) nx by (rule normal_or_zero_add)
  have r0: "0 \<le> rnd (s + x)" and r1: "agree_within 1 (rnd (s + x)) (s + x)"
    using accurate_rounding_nonneg [OF assms(1) sx] by simp_all
  have rn: "normal_or_zero (rnd (s + x))"
    using assms(1) sx by (rule normal_or_zero_rounded)
  have "agree_within ?n x x"
    using agree_within_mono [OF agree_within_refl, of ?n x] x by simp
  then have "agree_within ?n (s + x) (sum_list xs + x)"
    using s(3) by (rule agree_within_add [rotated])
  then have a: "agree_within (1 + ?n) (rnd (s + x)) (sum_list xs + x)"
    using r1 by (rule agree_within_trans [rotated])
  then have "rnd (s + x) \<le> (sum_list xs + x) * rounding_factor (?n + 1)"
    by (simp add: agree_within_def)
  then have up: "rnd (s + x) \<le> float64_max"
    using snoc.prems(2) by simp
  have lo: "- float64_max \<le> rnd (s + x)"
    using r0 float64_max_ge_2 by linarith
  have "np_sum64 rnd (map Fin (xs @ [x])) = fl rnd (s + x)"
    by (simp add: np_sum64_snoc s(1) fadd64_def)
  then have "np_sum64 rnd (map Fin (xs @ [x])) = Fin (rnd (s + x))"
    using fl_in_range [of rnd "s + x"] lo up by simp
  then show ?case
    using rn a by simp
qed

lemma nonneg_member_le_sum:
  fixes xs :: "real list"
  assumes "\<forall>x \<in> set xs. 0 \<le> x" "w \<in> set xs"
  shows "w \<le> sum_list xs"
  using assms by (induction xs) (auto simp: sum_list_nonneg_real intro: add_increasing add_increasing2)

lemma sum_list_divide_const: "(\<Sum>w\<leftarrow>v. w / c) = sum_list v / c" for c :: real
  by (induction v) (simp_all add: add_divide_distrib)

lemma calculate_hhi_pos_sum:
  assumes "0 < sum_list v"
  shows "calculate_hhi v = (\<Sum>w\<leftarrow>v. (w / sum_list v) * (w / sum_list v))"
proof -
  have "v \<noteq> []" using assms by auto
  then show ?thesis
    using assms by (simp add: calculate_hhi_def Let_def comp_def power2_eq_square)
qed

lemma calculate_hhi_unit_range:
  assumes "\<forall>w \<in> set v. 0 \<le> w" "0 < sum_list v"
  shows "0 \<le> calculate_hhi v" "calculate_hhi v \<le> 1"
proof -
  let ?T = "sum_list v"
  have el: "0 \<le> w / ?T \<and> (w / ?T) * (w / ?T) \<le> w / ?T" if "w \<in> set v" for w
  proof -
    have "0 \<le> w" "w \<le> ?T"
      using assms(1) that nonneg_member_le_sum by auto
    then have "0 \<le> w / ?T" "w / ?T \<le> 1"
      using assms(2) by simp_all
    then show ?thesis
      using mult_left_le [of "w / ?T" "w / ?T"] by blast
  qed
  have "0 \<le> (\<Sum>w\<leftarrow>v. (w / ?T) * (w / ?T))"
    by (rule sum_list_nonneg) auto
  then show "0 \<le> calculate_hhi v"
    using calculate_hhi_pos_sum [OF assms(2)] by simp
  have "(\<Sum>w\<leftarrow>v. (w / ?T) * (w / ?T)) \<le> (\<Sum>w\<leftarrow>v. w / ?T)"
    using el by (intro sum_list_mono) simp
  also have "\<dots> = ?T / ?T"
    by (rule sum_list_divide_const)
  also have "\<dots> = 1"
    using assms(2) by simp
  finally show "calculate_hhi v \<le> 1"
    using calculate_hhi_pos_sum [OF assms(2)] by simp
qed

lemma hhi_float64_enclosure:
  assumes acc: "accurate_rounding rnd"
    and nz: "\<forall>w \<in> set v. normal_or_zero w"
    and share: "\<forall>w \<in> set v. w = 0 \<or> sum_list v \<le> 2 ^ 500 * w"
    and pos: "0 < sum_list v"
    and small: "rounding_factor (3 * length v + 3) \<le> 2"
    and range: "sum_list v * rounding_factor (length v) \<le> float64_max"
  shows "\<exists>h. calculate_hhi_float64 rnd v = Fin h \<and> 0 \<le> h \<and>
           agree_within (3 * length v + 3) h (calculate_hhi v)"
proof -
  let ?n = "length v"
  let ?T = "sum_list v"
  have nonneg: "\<forall>w \<in> set v. 0 \<le> w"
    using nz normal_or_zero_nonneg by blast
  have ne: "v \<noteq> []" using pos by auto
  obtain t where t: "np_sum64 rnd (map Fin v) = Fin t" "normal_or_zero t" "agree_within ?n t ?T"
    using np_sum64_nonneg [OF acc nz range] by blast
  have t0: "0 \<le> t"
    using t(2) by (rule normal_or_zero_nonneg)
  have "?T \<le> t * rounding_factor ?n"
    using t(3) by (simp add: agree_within_def)
  then have tpos: "0 < t"
    using pos t0 rounding_factor_pos [of ?n] by (cases "t = 0") auto
  define q where "q w = rnd (w / t)" for w
  define p where "p w = rnd (q w * q w)" for w
  have sm: "rounding_factor m \<le> 2" if "m \<le> 3 * ?n + 3" for m
    using rounding_factor_mono [OF that] small by linarith
  have "t \<le> ?T * rounding_factor ?n"
    using t(3) by (simp add: agree_within_def)
  also have "\<dots> \<le> ?T * 2"
    using pos sm [of ?n] by (intro mult_left_mono) simp_all
  finally have t2: "t \<le> ?T * 2" .
  have el: "0 \<le> q w \<and> q w \<le> float64_max \<and> normal_or_zero (p w) \<and> p w \<le> float64_max \<and>
            agree_within (2 * ?n + 3) (p w) ((w / ?T) * (w / ?T))" if w: "w \<in> set v" for w
  proof -
    have w0: "0 \<le> w" and wT: "w \<le> ?T"
      using nonneg w nonneg_member_le_sum by auto
    have r0: "0 \<le> w / ?T" and r1: "w / ?T \<le> 1"
      using w0 wT pos by simp_all
    have big: "1 / 2 ^ 501 \<le> w / t" if "w \<noteq> 0"
    proof -
      have "?T \<le> 2 ^ 500 * w"
        using share w that by blast
      then have "t \<le> 2 ^ 501 * w"
        using t2 by simp
      then show ?thesis
        using tpos by (simp add: le_divide_eq mult.commute)
    qed
    have nx: "normal_or_zero (w / t)"
    proof (cases "w = 0")
      case True
      then show ?thesis by (simp add: normal_or_zero_def)
    next
      case False
      have "float64_min_normal \<le> 1 / 2 ^ 501"
        by (simp add: float64_min_normal_def)
      then have "float64_min_normal \<le> w / t"
        using big [OF False] by (rule order_trans)
      then show ?thesis
        unfolding normal_or_zero_def by blast
    qed
    have "agree_within (0 + ?n) (w / t) (w / ?T)"
      using agree_within_refl [of w] t(3) w0 tpos w0 pos by (rule agree_within_divide)
    then have a1: "agree_within ?n (w / t) (w / ?T)" by simp
    have q0: "0 \<le> q w" and q1: "agree_within 1 (q w) (w / t)"
      using accurate_rounding_nonneg [OF acc nx] by (simp_all add: q_def)
    have aq: "agree_within (1 + ?n) (q w) (w / ?T)"
      using q1 a1 by (rule agree_within_trans)
    then have "q w \<le> (w / ?T) * rounding_factor (1 + ?n)"
      by (simp add: agree_within_def)
    also have "\<dots> \<le> 1 * 2"
      using r0 r1 sm [of "1 + ?n"] rounding_factor_pos [of "1 + ?n"] by (intro mult_mono) simp_all
    finally have qM: "q w \<le> float64_max"
      using float64_max_ge_2 by simp
    have nqq: "normal_or_zero (q w * q w)"
    proof (cases "w = 0")
      case True
      then have "q w \<le> 0"
        using q1 by (simp add: agree_within_def)
      then have "q w = 0"
        using q0 by simp
      then show ?thesis by (simp add: normal_or_zero_def)
    next
      case False
      have "w / t \<le> q w * rounding_factor 1"
        using q1 by (simp add: agree_within_def)
      also have "\<dots> \<le> q w * 2"
        using q0 sm [of 1] by (intro mult_left_mono) simp_all
      finally have "1 / 2 ^ 501 \<le> q w * 2"
        using big [OF False] by (rule order_trans [rotated])
      moreover have "(1 / 2 ^ 502) * 2 = (1 / 2 ^ 501 :: real)"
        by simp
      ultimately have c: "1 / 2 ^ 502 \<le> q w"
        by linarith
      have "(1 / 2 ^ 502) * (1 / 2 ^ 502) \<le> q w * q w"
        using c by (intro mult_mono) simp_all
      moreover have "float64_min_normal \<le> (1 / 2 ^ 502) * (1 / 2 ^ 502)"
        by (simp add: float64_min_normal_def)
      ultimately have "float64_min_normal \<le> q w * q w"
        by (rule order_trans [rotated])
      then show ?thesis
        unfolding normal_or_zero_def by blast
    qed
    have aqq: "agree_within ((1 + ?n) + (1 + ?n)) (q w * q w) ((w / ?T) * (w / ?T))"
      using aq aq q0 q0 r0 r0 by (rule agree_within_mult)
    have p0: "0 \<le> p w" and p1: "agree_within 1 (p w) (q w * q w)"
      using accurate_rounding_nonneg [OF acc nqq] by (simp_all add: p_def)
    have pn: "normal_or_zero (p w)"
      using normal_or_zero_rounded [OF acc nqq] by (simp add: p_def)
    have e: "1 + ((1 + ?n) + (1 + ?n)) = 2 * ?n + 3"
      by simp
    have ap: "agree_within (2 * ?n + 3) (p w) ((w / ?T) * (w / ?T))"
      using agree_within_trans [OF p1 aqq] unfolding e .
    have rr: "0 \<le> (w / ?T) * (w / ?T)" "(w / ?T) * (w / ?T) \<le> 1"
      using r0 r1 mult_le_one [of "w / ?T" "w / ?T"] mult_nonneg_nonneg [of "w / ?T" "w / ?T"]
      by blast+
    have "p w \<le> ((w / ?T) * (w / ?T)) * rounding_factor (2 * ?n + 3)"
      using ap by (simp add: agree_within_def)
    also have "\<dots> \<le> 1 * 2"
      using rr sm [of "2 * ?n + 3"] rounding_factor_pos [of "2 * ?n + 3"]
      by (intro mult_mono) simp_all
    finally have pM: "p w \<le> float64_max"
      using float64_max_ge_2 by simp
    show ?thesis using q0 qM pn pM ap by blast
  qed
  have qv: "fdiv64 rnd (Fin w) (Fin t) = Fin (q w)" if "w \<in> set v" for w
  proof -
    have "- float64_max \<le> rnd (w / t)" "rnd (w / t) \<le> float64_max"
      using el [OF that] float64_max_ge_2 by (simp_all add: q_def)
    then show ?thesis
      using tpos fl_in_range [of rnd "w / t"] by (simp add: fdiv64_def q_def)
  qed
  have pv: "fmul64 rnd (Fin (q w)) (Fin (q w)) = Fin (p w)" if "w \<in> set v" for w
  proof -
    have "0 \<le> p w"
      using el [OF that] normal_or_zero_nonneg by blast
    then have "- float64_max \<le> rnd (q w * q w)" "rnd (q w * q w) \<le> float64_max"
      using el [OF that] float64_max_ge_2 by (simp_all add: p_def)
    then show ?thesis
      using fl_in_range [of rnd "q w * q w"] by (simp add: fmul64_def p_def)
  qed
  have lst: "map (\<lambda>w. fmul64 rnd w w) (map (\<lambda>w. fdiv64 rnd (Fin w) (Fin t)) v) = map Fin (map p v)"
    using qv pv by simp
  have H: "calculate_hhi v = (\<Sum>w\<leftarrow>v. (w / ?T) * (w / ?T))"
    using pos by (rule calculate_hhi_pos_sum)
  have aP: "agree_within (2 * ?n + 3) (sum_list (map p v)) (calculate_hhi v)"
    unfolding H using el by (intro agree_within_sum_list) blast
  have Hr: "0 \<le> calculate_hhi v" "calculate_hhi v \<le> 1"
    using calculate_hhi_unit_range [OF nonneg pos] by simp_all
  have pn: "\<forall>x \<in> set (map p v). normal_or_zero x"
    using el by auto
  have "sum_list (map p v) * rounding_factor ?n
      \<le> (calculate_hhi v * rounding_factor (2 * ?n + 3)) * rounding_factor ?n"
    using aP rounding_factor_pos [of ?n] by (simp add: agree_within_def mult_right_mono)
  also have "\<dots> = calculate_hhi v * rounding_factor (3 * ?n + 3)"
    by (simp add: rounding_factor_add [symmetric] mult.assoc)
  also have "\<dots> \<le> 1 * 2"
    using Hr small rounding_factor_pos [of "3 * ?n + 3"] by (intro mult_mono) simp_all
  finally have "sum_list (map p v) * rounding_factor (length (map p v)) \<le> float64_max"
    using float64_max_ge_2 by simp
  then obtain h where h: "np_sum64 rnd (map Fin (map p v)) = Fin h" "normal_or_zero h"
      "agree_within (length (map p v)) h (sum_list (map p v))"
    using np_sum64_nonneg [OF acc pn] by blast
  have h0: "0 \<le> h"
    using h(2) by (rule normal_or_zero_nonneg)
  have h3: "agree_within ?n h (sum_list (map p v))"
    using h(3) by simp
  have e3: "?n + (2 * ?n + 3) = 3 * ?n + 3"
    by simp
  have ah: "agree_within (3 * ?n + 3) h (calculate_hhi v)"
    using agree_within_trans [OF h3 aP] unfolding e3 .
  have "calculate_hhi_float64 rnd v =
      (if flt (Fin 0) (Fin t)
       then np_sum64 rnd (map (\<lambda>w. fmul64 rnd w w) (map (\<lambda>w. fdiv64 rnd (Fin w) (Fin t)) v))
       else Fin 0)"
    using ne by (simp only: calculate_hhi_float64_def t(1) Let_def if_False)
  also have "\<dots> = Fin h"
    unfolding lst h(1) using tpos by simp
  finally have "calculate_hhi_float64 rnd v = Fin h" .
  then show ?thesis
    using h0 ah by blast
qed

lemma hhi_rounded_inputs:
  assumes acc: "accurate_rounding rnd"
    and nzk: "\<forall>w \<in> set ws. normal_or_zero (k * w)"
    and share: "\<forall>w \<in> set ws. w = 0 \<or> sum_list ws \<le> 2 ^ 498 * w"
    and pos: "0 < sum_list ws"
    and k: "0 < k"
    and small: "rounding_factor 1 \<le> 2"
  shows "\<forall>x \<in> set (map (\<lambda>w. rnd (k * w)) ws). normal_or_zero x"
    and "0 < sum_list (map (\<lambda>w. rnd (k * w)) ws)"
    and "agree_within 1 (sum_list (map (\<lambda>w. rnd (k * w)) ws)) (k * sum_list ws)"
    and "agree_within 4 (calculate_hhi (map (\<lambda>w. rnd (k * w)) ws)) (calculate_hhi ws)"
    and "\<forall>x \<in> set (map (\<lambda>w. rnd (k * w)) ws).
           x = 0 \<or> sum_list (map (\<lambda>w. rnd (k * w)) ws) \<le> 2 ^ 500 * x"
proof -
  let ?f = "\<lambda>w. rnd (k * w)"
  let ?g = "\<lambda>w. k * w"
  let ?S = "sum_list (map ?f ws)"
  let ?T = "sum_list (map ?g ws)"
  have el: "0 \<le> ?g w \<and> 0 \<le> ?f w \<and> agree_within 1 (?f w) (?g w) \<and> normal_or_zero (?f w)"
    if "w \<in> set ws" for w
  proof -
    have n: "normal_or_zero (k * w)" using nzk that by blast
    then have "0 \<le> k * w" by (rule normal_or_zero_nonneg)
    then show ?thesis
      using accurate_rounding_nonneg [OF acc n] normal_or_zero_rounded [OF acc n] by blast
  qed
  show "\<forall>x \<in> set (map ?f ws). normal_or_zero x"
    using el by auto
  have n': "\<forall>x \<in> set (map ?f ws). 0 \<le> x"
    using el by auto
  have T: "?T = k * sum_list ws"
    by (simp add: sum_list_const_mult)
  have Tpos: "0 < ?T"
    using T pos k by simp
  have aS: "agree_within 1 ?S ?T"
    using el by (intro agree_within_sum_list) blast
  then show "agree_within 1 ?S (k * sum_list ws)"
    using T by simp
  have "?T \<le> ?S * rounding_factor 1"
    using aS by (simp add: agree_within_def)
  moreover have S0: "0 \<le> ?S"
    using n' by (rule sum_list_nonneg_real)
  ultimately show Spos: "0 < ?S"
    using Tpos rounding_factor_pos [of 1] by (cases "?S = 0") auto
  have sq: "agree_within 4 ((?f w / ?S) * (?f w / ?S)) ((?g w / ?T) * (?g w / ?T))"
    if w: "w \<in> set ws" for w
  proof -
    have d: "agree_within (1 + 1) (?f w / ?S) (?g w / ?T)"
      using el [OF w] aS Spos Tpos by (intro agree_within_divide) simp_all
    have d0: "0 \<le> ?f w / ?S" "0 \<le> ?g w / ?T"
      using el [OF w] Spos Tpos by simp_all
    have "agree_within ((1 + 1) + (1 + 1)) ((?f w / ?S) * (?f w / ?S)) ((?g w / ?T) * (?g w / ?T))"
      using d d d0(1) d0(1) d0(2) d0(2) by (rule agree_within_mult)
    moreover have "(1 + 1) + (1 + 1) = (4::nat)" by simp
    ultimately show ?thesis by (simp only:)
  qed
  have "calculate_hhi (map ?f ws) = (\<Sum>x\<leftarrow>map ?f ws. (x / ?S) * (x / ?S))"
    using Spos by (rule calculate_hhi_pos_sum)
  then have Hf: "calculate_hhi (map ?f ws) = (\<Sum>w\<leftarrow>ws. (?f w / ?S) * (?f w / ?S))"
    by (simp add: comp_def)
  have "calculate_hhi (map ?g ws) = (\<Sum>x\<leftarrow>map ?g ws. (x / ?T) * (x / ?T))"
    using Tpos by (rule calculate_hhi_pos_sum)
  then have Hg: "calculate_hhi (map ?g ws) = (\<Sum>w\<leftarrow>ws. (?g w / ?T) * (?g w / ?T))"
    by (simp add: comp_def)
  have "agree_within 4 (calculate_hhi (map ?f ws)) (calculate_hhi (map ?g ws))"
    unfolding Hf Hg using sq by (intro agree_within_sum_list) blast
  then show "agree_within 4 (calculate_hhi (map ?f ws)) (calculate_hhi ws)"
    using hhi_scale [OF k, of ws] by simp
  have S2: "?S \<le> ?T * 2"
  proof -
    have "?S \<le> ?T * rounding_factor 1"
      using aS by (simp add: agree_within_def)
    also have "\<dots> \<le> ?T * 2"
      using Tpos small by (intro mult_left_mono) simp_all
    finally show ?thesis .
  qed
  have sh: "?f w = 0 \<or> ?S \<le> 2 ^ 500 * ?f w" if w: "w \<in> set ws" for w
  proof (cases "w = 0")
    case True
    then have "?f w \<le> 0"
      using el [OF w] by (simp add: agree_within_def)
    then show ?thesis
      using el [OF w] by simp
  next
    case False
    then have "sum_list ws \<le> 2 ^ 498 * w"
      using share w by blast
    then have "k * sum_list ws \<le> k * (2 ^ 498 * w)"
      using k by (simp add: mult_left_mono)
    then have 1: "?T \<le> 2 ^ 498 * (k * w)"
      using T by (simp add: mult.left_commute)
    have "?g w \<le> ?f w * rounding_factor 1"
      using el [OF w] by (simp add: agree_within_def)
    also have "\<dots> \<le> ?f w * 2"
      using el [OF w] small by (intro mult_left_mono) simp_all
    finally have 2: "k * w \<le> ?f w * 2" .
    have "?S \<le> (2 ^ 498 * (?f w * 2)) * 2"
      using S2 1 2 by simp
    also have "\<dots> = 2 ^ 500 * ?f w"
      by simp
    finally show ?thesis
      by blast
  qed
  show "\<forall>x \<in> set (map ?f ws). x = 0 \<or> ?S \<le> 2 ^ 500 * x"
    using sh by auto
qed

lemma hhi_scaling:
  assumes acc: "accurate_rounding rnd"
    and k: "0 < k"
    and nz: "\<forall>w \<in> set ws. normal_or_zero w"
    and nzk: "\<forall>w \<in> set ws. normal_or_zero (k * w)"
    and share: "\<forall>w \<in> set ws. w = 0 \<or> sum_list ws \<le> 2 ^ 498 * w"
    and pos: "0 < sum_list ws"
    and small: "rounding_factor (6 * length ws + 10) \<le> 2"
    and range: "2 * sum_list ws \<le> float64_max" "2 * (k * sum_list ws) \<le> float64_max"
  shows "\<exists>h h'. calculate_hhi_float64 rnd ws = Fin h \<and>
      calculate_hhi_float64 rnd (map (\<lambda>w. rnd (k * w)) ws) = Fin h' \<and>
      agree_within (6 * length ws + 10) h' h \<and>
      agree_within (3 * length ws + 3) h (calculate_hhi ws)"
proof -
  let ?n = "length ws"
  let ?ws' = "map (\<lambda>w. rnd (k * w)) ws"
  have sm: "rounding_factor m \<le> 2" if "m \<le> 6 * ?n + 10" for m
    using rounding_factor_mono [OF that] small by linarith
  have T0: "0 \<le> sum_list ws" using pos by simp
  have "sum_list ws * rounding_factor ?n \<le> sum_list ws * 2"
    using T0 sm [of ?n] by (intro mult_left_mono) simp_all
  then have r1: "sum_list ws * rounding_factor ?n \<le> float64_max"
    using range(1) by (simp add: mult.commute)
  have share': "\<forall>w \<in> set ws. w = 0 \<or> sum_list ws \<le> 2 ^ 500 * w"
  proof
    fix w assume w: "w \<in> set ws"
    have "0 \<le> w"
      using nz w normal_or_zero_nonneg by blast
    then have "2 ^ 498 * w \<le> 2 ^ 500 * w"
      by (intro mult_right_mono) simp_all
    then show "w = 0 \<or> sum_list ws \<le> 2 ^ 500 * w"
      using share w by fastforce
  qed
  obtain h where h: "calculate_hhi_float64 rnd ws = Fin h" "0 \<le> h"
      "agree_within (3 * ?n + 3) h (calculate_hhi ws)"
    using hhi_float64_enclosure [OF acc nz share' pos sm r1] by auto
  have sm1: "rounding_factor 1 \<le> 2"
    using sm [of 1] by simp
  note ri = hhi_rounded_inputs [OF acc nzk share pos k sm1]
  have "sum_list ?ws' \<le> (k * sum_list ws) * rounding_factor 1"
    using ri(3) by (simp add: agree_within_def)
  then have "sum_list ?ws' * rounding_factor ?n \<le> ((k * sum_list ws) * rounding_factor 1) * rounding_factor ?n"
    using rounding_factor_pos [of ?n] by (simp add: mult_right_mono)
  also have "\<dots> = (k * sum_list ws) * rounding_factor (1 + ?n)"
    by (simp only: rounding_factor_add mult.assoc)
  also have "\<dots> \<le> (k * sum_list ws) * 2"
    using T0 k sm [of "1 + ?n"] by (intro mult_left_mono) simp_all
  finally have r2: "sum_list ?ws' * rounding_factor (length ?ws') \<le> float64_max"
    using range(2) by (simp add: mult.commute)
  have sm': "rounding_factor (3 * length ?ws' + 3) \<le> 2"
    using sm [of "3 * ?n + 3"] by simp
  obtain h' where h': "calculate_hhi_float64 rnd ?ws' = Fin h'" "0 \<le> h'"
      "agree_within (3 * length ?ws' + 3) h' (calculate_hhi ?ws')"
    using hhi_float64_enclosure [OF acc ri(1) ri(5) ri(2) sm' r2] by auto
  have a1: "agree_within (3 * ?n + 3) h' (calculate_hhi ?ws')"
    using h'(3) by simp
  have a2: "agree_within ((3 * ?n + 3) + 4) h' (calculate_hhi ws)"
    using a1 ri(4) by (rule agree_within_trans)
  have a3: "agree_within (((3 * ?n + 3) + 4) + (3 * ?n + 3)) h' h"
    using a2 agree_within_sym [OF h(3)] by (rule agree_within_trans)
  have e: "((3 * ?n + 3) + 4) + (3 * ?n + 3) = 6 * ?n + 10"
    by simp
  have "agree_within (6 * ?n + 10) h' h"
    using a3 unfolding e .
  then show ?thesis
    using h(1) h'(1) h(3) by blast
qed

lemma hhi_float64_zero:
  "calculate_hhi_float64 rnd [] = Fin 0"
  "\<not> flt (Fin 0) (np_sum64 rnd (map Fin vs)) \<Longrightarrow> calculate_hhi_float64 rnd vs = Fin 0"
  by (simp_all add: calculate_hhi_float64_def Let_def)

lemma accurate_rounding_exact: "accurate_rounding (\<lambda>x. x)"
  using unit_roundoff_bounds by (simp add: accurate_rounding_def)

lemma accurate_rounding_zero: "accurate_rounding rnd \<Longrightarrow> rnd 0 = 0"
  using normal_or_zero_rounded [of rnd 0] accurate_rounding_nonneg [of rnd 0]
  by (simp add: normal_or_zero_def agree_within_def)

lemma rounding_factor_small:
  assumes "m \<le> 2 ^ 50"
  shows "rounding_factor m \<le> 2"
proof -
  define y :: real where "y = 1 / 2 ^ 51"
  have y: "0 < y" "y < 1"
    by (simp_all add: y_def)
  have "1 + unit_roundoff \<le> (1 + y) * (1 - unit_roundoff)"
    by (simp add: unit_roundoff_def y_def)
  then have base: "(1 + unit_roundoff) / (1 - unit_roundoff) \<le> 1 + y"
    using unit_roundoff_bounds by (simp add: divide_le_eq)
  have "0 \<le> (1 + unit_roundoff) / (1 - unit_roundoff)"
    using rounding_base_ge_1 by linarith
  then have 1: "rounding_factor m \<le> (1 + y) ^ m"
    unfolding rounding_factor_def using base by (rule power_mono [rotated])
  have "1 + real m * (- y) \<le> (1 + (- y)) ^ m"
    using y by (intro Bernoulli_inequality) simp
  then have b: "1 - real m * y \<le> (1 - y) ^ m"
    by simp
  have "real m \<le> 2 ^ 50"
    using assms by (metis of_nat_le_iff of_nat_numeral of_nat_power)
  then have "real m * y \<le> 2 ^ 50 * y"
    using y by (simp add: mult_right_mono)
  then have "real m * y \<le> 1 / 2"
    by (simp add: y_def)
  then have half: "1 / 2 \<le> (1 - y) ^ m"
    using b by linarith
  have "(1 + y) * (1 - y) \<le> 1"
    by (simp add: algebra_simps)
  moreover have "0 \<le> (1 + y) * (1 - y)"
    using y by simp
  ultimately have "((1 + y) * (1 - y)) ^ m \<le> 1"
    by (simp add: power_le_one)
  then have prod: "(1 + y) ^ m * (1 - y) ^ m \<le> 1"
    by (simp add: power_mult_distrib)
  have "0 \<le> (1 + y) ^ m"
    using y by simp
  then have "(1 + y) ^ m * (1 / 2) \<le> (1 + y) ^ m * (1 - y) ^ m"
    using half by (rule mult_left_mono [rotated])
  then have "(1 + y) ^ m \<le> 2"
    using prod by linarith
  then show ?thesis
    using 1 by linarith
qed

text \<open>
  C5 (as stated). The claim says that the index of \<open>k\<cdot>w\<close> equals the index of
  \<open>w\<close> for every positive \<open>k\<close>. The weights 1, 1 have index 0.5. Scaled by
  \<open>k = 2 ^ 1023\<close> their sum \<open>2 ^ 1024\<close> is beyond the largest float64 and
  becomes \<open>inf\<close>, every normalised weight is 0 and the index is 0.0. Every
  other result on these two inputs is a float64 number, so no operation rounds.
\<close>

theorem calculate_hhi_scaling_overflow_counterexample:
  "calculate_hhi_float64 (\<lambda>x. x) [1, 1] = Fin (1 / 2) \<and>
   calculate_hhi_float64 (\<lambda>x. x) (map (\<lambda>w. 2 ^ 1023 * w) [1, 1]) = Fin 0"
proof -
  have m: "float64_max < 2 ^ 1023 + 2 ^ 1023"
    by (simp add: float64_max_def)
  have g: "\<not> float64_max < 2" "\<not> float64_max < 1" "\<not> float64_max < 1 / 2" "\<not> float64_max < 1 / 4"
       "\<not> float64_max < 0" "\<not> float64_max < 2 ^ 1023"
    using float64_max_ge_2 by (simp_all add: float64_max_def)
  have l: "\<not> (2::real) < - float64_max" "\<not> (1::real) < - float64_max" "\<not> (1 / 2 :: real) < - float64_max"
       "\<not> (1 / 4 :: real) < - float64_max" "\<not> (0 :: real) < - float64_max"
       "\<not> (2 ^ 1023 :: real) < - float64_max"
    using float64_max_ge_2 by simp_all
  have a: "calculate_hhi_float64 (\<lambda>x. x) [1, 1] = Fin (1 / 2)"
    using g l by (simp add: calculate_hhi_float64_def np_sum64_def fadd64_def fdiv64_def fmul64_def fl_def Let_def)
  have b: "calculate_hhi_float64 (\<lambda>x. x) (map (\<lambda>w. 2 ^ 1023 * w) [1, 1]) = Fin 0"
    using g l m by (simp add: calculate_hhi_float64_def np_sum64_def fadd64_def fdiv64_def fmul64_def fl_def Let_def)
  show ?thesis using a b by simp
qed

text \<open>
  C5 (amended). Let the weights \<open>w\<close> be non-negative with a positive sum, and let
  \<open>k > 0\<close>. When no operation overflows or underflows (twice the sum of \<open>w\<close> and
  of \<open>k\<cdot>w\<close> is within the float64 range; every non-zero weight, scaled or not, is
  at least \<open>2 ^ -1022\<close> and at least the fraction \<open>2 ^ -498\<close> of the sum),
  \<open>calculate_hhi\<close> of the rounded products \<open>k\<cdot>w\<close> and \<open>calculate_hhi\<close> of
  \<open>w\<close> are finite and agree up to rounding: each is at most the other times
  \<open>((1 + u) / (1 - u)) ^ (6 n + 10)\<close>, with \<open>u = 2 ^ -53\<close> and \<open>n\<close> the
  number of weights, and the value for \<open>w\<close> is within \<open>3 n + 3\<close> roundings of
  the exact index. The two need not be equal. For the empty list, and for every list
  whose computed sum is not greater than 0, the result is 0.0.
\<close>

theorem calculate_hhi_scaling_up_to_rounding:
  assumes "accurate_rounding rnd" "0 < k" "0 < sum_list ws" "length ws \<le> 2 ^ 40"
    "\<forall>w \<in> set ws. w = 0 \<or>
       (float64_min_normal \<le> w \<and> float64_min_normal \<le> k * w \<and> sum_list ws \<le> 2 ^ 498 * w)"
    "2 * sum_list ws \<le> float64_max" "2 * (k * sum_list ws) \<le> float64_max"
  shows "(\<exists>h h'. calculate_hhi_float64 rnd ws = Fin h \<and>
            calculate_hhi_float64 rnd (map (\<lambda>w. rnd (k * w)) ws) = Fin h' \<and>
            agree_within (6 * length ws + 10) h' h \<and>
            agree_within (3 * length ws + 3) h (calculate_hhi ws)) \<and>
         calculate_hhi_float64 rnd [] = Fin 0 \<and>
         (\<not> flt (Fin 0) (np_sum64 rnd (map Fin vs)) \<longrightarrow>
            calculate_hhi_float64 rnd vs = Fin 0)"
proof -
  have "6 * length ws + 10 \<le> 6 * 2 ^ 40 + 10"
    using assms(4) by simp
  also have "\<dots> \<le> (2::nat) ^ 50"
    by simp
  finally have small: "rounding_factor (6 * length ws + 10) \<le> 2"
    by (rule rounding_factor_small)
  have nz: "\<forall>w \<in> set ws. normal_or_zero w"
    using assms(5) by (auto simp: normal_or_zero_def)
  have nzk: "\<forall>w \<in> set ws. normal_or_zero (k * w)"
    using assms(5) by (auto simp: normal_or_zero_def)
  have share: "\<forall>w \<in> set ws. w = 0 \<or> sum_list ws \<le> 2 ^ 498 * w"
    using assms(5) by blast
  show ?thesis
    using hhi_scaling [OF assms(1,2) nz nzk share assms(3) small assms(6,7)]
      hhi_float64_zero(1) [of rnd] hhi_float64_zero(2) [of rnd vs]
    by blast
qed

theorem calculate_hhi_scaling_up_to_rounding_witness:
  "(\<exists>h h'. calculate_hhi_float64 (\<lambda>x. x) [1, 2] = Fin h \<and>
      calculate_hhi_float64 (\<lambda>x. x) [3, 6] = Fin h' \<and>
      agree_within 22 h' h \<and> agree_within 9 h (calculate_hhi [1, 2])) \<and>
   calculate_hhi_float64 (\<lambda>x. x) [] = Fin 0 \<and>
   calculate_hhi_float64 (\<lambda>x. x) [2, - 2] = Fin 0"
proof -
  have m: "18 \<le> float64_max"
    by (simp add: float64_max_def)
  have z: "\<not> flt (Fin 0) (np_sum64 (\<lambda>x. x) (map Fin [2, - 2]))"
    using m by (simp add: np_sum64_def fadd64_def fl_def Let_def)
  have "0 < sum_list [1, 2 :: real]" "length [1, 2 :: real] \<le> 2 ^ 40"
    "\<forall>w \<in> set [1, 2 :: real]. w = 0 \<or>
       (float64_min_normal \<le> w \<and> float64_min_normal \<le> 3 * w \<and> sum_list [1, 2] \<le> 2 ^ 498 * w)"
    "2 * sum_list [1, 2 :: real] \<le> float64_max"
    "2 * (3 * sum_list [1, 2 :: real]) \<le> float64_max"
    using m by (simp_all add: float64_min_normal_def)
  from calculate_hhi_scaling_up_to_rounding
    [OF accurate_rounding_exact _ this, where vs = "[2, - 2]"] z
  show ?thesis
    by simp
qed

section \<open>Properties of the risk score\<close>

lemma round_half_even_mono:
  assumes "x \<le> y"
  shows "round_half_even x \<le> round_half_even y"
proof -
  have fl: "\<lfloor>x\<rfloor> \<le> \<lfloor>y\<rfloor>" using assms by (rule floor_mono)
  have lo: "\<And>z. \<lfloor>z\<rfloor> \<le> round_half_even z" "\<And>z. round_half_even z \<le> \<lfloor>z\<rfloor> + 1"
    by (simp_all add: round_half_even_def Let_def)
  show ?thesis
  proof (cases "\<lfloor>x\<rfloor> = \<lfloor>y\<rfloor>")
    case True
    have "x - of_int \<lfloor>x\<rfloor> \<le> y - of_int \<lfloor>y\<rfloor>" using assms True by simp
    then show ?thesis
      using True by (auto simp: round_half_even_def Let_def)
  next
    case False
    then have "\<lfloor>x\<rfloor> + 1 \<le> \<lfloor>y\<rfloor>" using fl by simp
    then show ?thesis using lo(1)[of y] lo(2)[of x] by linarith
  qed
qed

lemma py_round_mono: "x \<le> y \<Longrightarrow> py_round x n \<le> py_round y n"
  by (simp add: py_round_def round_half_even_mono divide_right_mono mult_right_mono)




lemma py_fmin_Fin: "py_fmin (Fin a) (Fin b) = Fin (py_min a b)"
  by (simp add: py_fmin_def py_min_def)

lemma py_fmax_Fin: "py_fmax (Fin a) (Fin b) = Fin (py_max a b)"
  by (simp add: py_fmax_def py_max_def)

lemma calculate_risk_score_Fin:
  "calculate_risk_score (Fin v) (Fin c) (Fin r) default_weights =
     Fin (py_round (py_max 1 (py_min 10 (1 + (0.5 * py_min v 1 + 0.3 * c + 0.2 * r) * 9))) 2)"
  by (simp add: calculate_risk_score_def default_weights_def py_fmin_Fin py_fmax_Fin Let_def)

lemma py_min_mono: "a \<le> a' \<Longrightarrow> b \<le> b' \<Longrightarrow> py_min a b \<le> py_min a' b'"
  by (auto simp: py_min_def)

lemma py_max_mono: "a \<le> a' \<Longrightarrow> b \<le> b' \<Longrightarrow> py_max a b \<le> py_max a' b'"
  by (auto simp: py_max_def)
lemma risk_mono:
  assumes "v \<le> v'" "c \<le> c'" "r \<le> r'"
  shows "fle (calculate_risk_score (Fin v) (Fin c) (Fin r) default_weights)
             (calculate_risk_score (Fin v') (Fin c') (Fin r') default_weights)"
proof -
  have "py_min v 1 \<le> py_min v' 1" using assms(1) by (rule py_min_mono) simp
  then have "1 + (0.5 * py_min v 1 + 0.3 * c + 0.2 * r) * 9
        \<le> 1 + (0.5 * py_min v' 1 + 0.3 * c' + 0.2 * r') * 9"
    using assms(2,3) by simp
  then have "py_max 1 (py_min 10 (1 + (0.5 * py_min v 1 + 0.3 * c + 0.2 * r) * 9))
        \<le> py_max 1 (py_min 10 (1 + (0.5 * py_min v' 1 + 0.3 * c' + 0.2 * r') * 9))"
    by (intro py_max_mono py_min_mono) simp_all
  then show ?thesis
    by (simp add: calculate_risk_score_Fin py_round_mono)
qed

text \<open>
  C6. With the default weights (0.5, 0.3, 0.2), the risk score does not decrease when
  one of volatility, concentration and correlation grows and the other two stay fixed.
\<close>

theorem calculate_risk_score_monotone:
  assumes "x \<le> x'"
  shows "fle (calculate_risk_score (Fin x) (Fin c) (Fin r) default_weights)
             (calculate_risk_score (Fin x') (Fin c) (Fin r) default_weights) \<and>
         fle (calculate_risk_score (Fin v) (Fin x) (Fin r) default_weights)
             (calculate_risk_score (Fin v) (Fin x') (Fin r) default_weights) \<and>
         fle (calculate_risk_score (Fin v) (Fin c) (Fin x) default_weights)
             (calculate_risk_score (Fin v) (Fin c) (Fin x') default_weights)"
  using assms by (simp add: risk_mono)

theorem calculate_risk_score_monotone_witness:
  "fle (calculate_risk_score (Fin 0.2) (Fin 0.3) (Fin 0.4) default_weights)
       (calculate_risk_score (Fin 0.5) (Fin 0.3) (Fin 0.4) default_weights) \<and>
   fle (calculate_risk_score (Fin 0.1) (Fin 0.2) (Fin 0.4) default_weights)
       (calculate_risk_score (Fin 0.1) (Fin 0.5) (Fin 0.4) default_weights) \<and>
   fle (calculate_risk_score (Fin 0.1) (Fin 0.3) (Fin 0.2) default_weights)
       (calculate_risk_score (Fin 0.1) (Fin 0.3) (Fin 0.5) default_weights)"
proof -
  have "(0.2::real) \<le> 0.5"
    by simp
  from calculate_risk_score_monotone [OF this, where c = "0.3" and r = "0.4" and v = "0.1"]
  show ?thesis
    by simp
qed

section \<open>Properties of the volatility\<close>





















section \<open>Properties of the correlation\<close>








lemma calculate_correlation_unfold:
  "calculate_correlation rm =
     (if length rm < 2 then Inr (Fin 0)
      else if filter (\<lambda>r. r \<noteq> []) rm = [] then Inl ValueError
      else if min_list (map length (filter (\<lambda>r. r \<noteq> []) rm)) < 2 then Inr (Fin 0)
      else if length (filter (\<lambda>r. r \<noteq> []) rm) < 2 then Inr (Fin 0)
      else (let cm = map (map np_nan_to_num)
                       (np_corrcoef (map (take (min_list (map length (filter (\<lambda>r. r \<noteq> []) rm))))
                                         (filter (\<lambda>r. r \<noteq> []) rm)));
                ut = concat (map (\<lambda>i. map (\<lambda>j. fabs (cm ! i ! j)) [i + 1..<length cm])
                                 [0..<length cm])
            in if ut = [] then Inr (Fin 0) else Inr (np_mean ut)))"
proof (cases "map length (filter (\<lambda>r. r \<noteq> []) rm)")
  case Nil
  then show ?thesis
    by (simp add: calculate_correlation_def)
next
  case (Cons l ls)
  then have ne: "filter (\<lambda>r. r \<noteq> []) rm \<noteq> []"
    by auto
  show ?thesis
    unfolding calculate_correlation_def Cons list.case
    using ne by (simp only: Let_def if_False length_map)
qed




text \<open>
  Fewer than two series, or exactly one non-empty series, give 0.0; a series of zero
  variance makes the correlation NaN, which \<open>np.nan_to_num\<close> turns into 0.
\<close>

lemma calculate_correlation_one_nonempty:
  assumes "length (filter (\<lambda>r. r \<noteq> []) rm) = 1"
  shows "calculate_correlation rm = Inr (Fin 0)"
proof -
  have "filter (\<lambda>r. r \<noteq> []) rm \<noteq> []"
    using assms by auto
  then show ?thesis
    using assms by (simp add: calculate_correlation_unfold)
qed

lemma calculate_correlation_short: "length rm < 2 \<Longrightarrow> calculate_correlation rm = Inr (Fin 0)"
  by (simp add: calculate_correlation_def)

lemma calculate_correlation_zero_variance_example:
  "calculate_correlation [[Fin 1, Fin 1], [Fin 1, Fin 3]] = Inr (Fin 0)"
  by (simp add: calculate_correlation_def np_corrcoef_def np_cov_def np_mean_def np_dot_def
      fsum_def fsub_def Let_def inf_signed_def upt_rec [of 0] upt_rec [of 1] upt_rec [of 2]
      upt_rec [of "Suc 0"])

text \<open>
  C2. The claim promises a value between 0 and 1 for every collection of return series,
  also when all series are empty. With two or more series that are all empty the filter
  of \<open>min(len(r) for r in returns_matrix if r)\<close> leaves nothing and \<open>min\<close> raises
  \<open>ValueError\<close>: the check for fewer than two non-empty series comes only afterwards.
  On every other input the result is a finite value between 0 and 1, as the lemmas
  \<open>calculate_correlation_range\<close> and \<open>calculate_correlation_raises_iff\<close> show.
\<close>

theorem calculate_correlation_all_empty_raises:
  "calculate_correlation [[], []] = Inl ValueError"
  by (simp add: calculate_correlation_def)

section \<open>Properties of the portfolio analysis\<close>











end
